theory Spec2Isabelle
  imports Main "HOL-Library.Sublist"
begin

section \<open>Strings and the built-in string operations the generator uses\<close>

text \<open>
  A JavaScript string is a sequence of code units. The model uses \<^typ>\<open>string\<close>, each
  \<^typ>\<open>char\<close> standing for one code unit in the range 0..255; all the text the generator
  itself emits is ASCII.
\<close>

definition nl :: char where
  "nl = CHR 0x0A"

definition cr :: char where
  "cr = CHR 0x0D"

text \<open>\<^verbatim>\<open>Array.prototype.join(sep)\<close>.\<close>

fun join_with :: "string \<Rightarrow> string list \<Rightarrow> string" where
  "join_with sep [] = []"
| "join_with sep [x] = x"
| "join_with sep (x # y # ys) = x @ sep @ join_with sep (y # ys)"

text \<open>\<^verbatim>\<open>String.prototype.split(c)\<close> for a one-character separator; the result is never empty.\<close>

fun split_on :: "char \<Rightarrow> string \<Rightarrow> string list" where
  "split_on c [] = [] # []"
| "split_on c (x # xs) =
     (if x = c then [] # split_on c xs
      else (case split_on c xs of
              [] \<Rightarrow> [x] # []
            | l # ls \<Rightarrow> (x # l) # ls))"

text \<open>\<^verbatim>\<open>String.prototype.trim\<close>: tab, line feed, vertical tab, form feed, carriage return,
  space and no-break space are the white space and line terminators below 256.\<close>

definition is_space :: "char \<Rightarrow> bool" where
  "is_space c = (c \<in> set [CHR 0x09, CHR 0x0A, CHR 0x0B, CHR 0x0C, CHR 0x0D, CHR 0x20, CHR 0xA0])"

definition trim :: "string \<Rightarrow> string" where
  "trim s = rev (dropWhile is_space (rev (dropWhile is_space s)))"

text \<open>The text that follows the leftmost occurrence of \<open>pat\<close> in \<open>s\<close>, if \<open>pat\<close> occurs:
  what the capture group of \<^verbatim>\<open>/pat(.*)/s.exec(s)\<close> holds for a literal \<open>pat\<close>.\<close>

fun after_first :: "string \<Rightarrow> string \<Rightarrow> string option" where
  "after_first pat [] = (if pat = [] then Some [] else None)"
| "after_first pat (x # xs) =
     (if prefix pat (x # xs) then Some (drop (length pat) (x # xs))
      else after_first pat xs)"

section \<open>JSON values and \<^verbatim>\<open>JSON.stringify\<close>\<close>

text \<open>
  Enum members are JSON values. A number is known by the text \<^verbatim>\<open>JSON.stringify\<close> prints
  for it, which is the one ECMAScript's \<^verbatim>\<open>Number::toString\<close> gives (\<^verbatim>\<open>1\<close>, \<^verbatim>\<open>-2.5\<close>,
  \<^verbatim>\<open>1e+21\<close>): the conversion of a double to its shortest decimal text is not modelled.
  The members of an object are listed in the order \<^verbatim>\<open>JSON.stringify\<close> visits them.
\<close>

datatype json =
    JNull
  | JBool bool
  | JNum string
  | JStr string
  | JArr "json list"
  | JObj "(string \<times> json) list"

definition hex_digit :: "nat \<Rightarrow> char" where
  "hex_digit k = (if k < 10 then char_of (48 + k) else char_of (87 + k))"

text \<open>The escape of one code unit inside a JSON string literal (\<^verbatim>\<open>QuoteJSONString\<close>).\<close>

definition json_escape :: "char \<Rightarrow> string" where
  "json_escape c =
     (if c = CHR 0x22 then [CHR 0x5C, CHR 0x22]
      else if c = CHR 0x5C then [CHR 0x5C, CHR 0x5C]
      else if c = CHR 0x08 then [CHR 0x5C, CHR ''b'']
      else if c = CHR 0x09 then [CHR 0x5C, CHR ''t'']
      else if c = CHR 0x0A then [CHR 0x5C, CHR ''n'']
      else if c = CHR 0x0C then [CHR 0x5C, CHR ''f'']
      else if c = CHR 0x0D then [CHR 0x5C, CHR ''r'']
      else if (of_char c :: nat) < 32 then
        [CHR 0x5C, CHR ''u'', CHR ''0'', CHR ''0'',
         hex_digit ((of_char c :: nat) div 16), hex_digit ((of_char c :: nat) mod 16)]
      else [c])"

definition json_quote :: "string \<Rightarrow> string" where
  "json_quote s = CHR 0x22 # concat (map json_escape s) @ [CHR 0x22]"

text \<open>\<^verbatim>\<open>JSON.stringify(value)\<close> with no replacer and no indentation, as \<^verbatim>\<open>parseEnum\<close>
  calls it.\<close>

fun stringify :: "json \<Rightarrow> string" where
  "stringify JNull = ''null''"
| "stringify (JBool b) = (if b then ''true'' else ''false'')"
| "stringify (JNum t) = t"
| "stringify (JStr s) = json_quote s"
| "stringify (JArr vs) = ''['' @ join_with '','' (map stringify vs) @ '']''"
| "stringify (JObj kvs) =
     ''{'' @ join_with '','' (map (\<lambda>(k, v). json_quote k @ '':'' @ stringify v) kvs) @ ''}''"

subsection \<open>JSON literals, read from the grammar\<close>

text \<open>
  What it is for a text to be the JSON literal of a value is said here from the JSON
  grammar, by reading the text, and not from \<^verbatim>\<open>JSON.stringify\<close>. \<open>json_unescape\<close> decodes
  the body of a string literal: a backslash introduces one of the two-character escapes or
  the letter \<^verbatim>\<open>u\<close> and four hexadecimal digits (of either case; the first two are \<^verbatim>\<open>00\<close>, the
  code units being below 256); a bare quotation mark or control character is refused; any
  other code unit stands for itself.
\<close>

definition hex_value :: "char \<Rightarrow> nat option" where
  "hex_value c =
     (let n = (of_char c :: nat)
      in if 48 \<le> n \<and> n \<le> 57 then Some (n - 48)
         else if 97 \<le> n \<and> n \<le> 102 then Some (n - 87)
         else if 65 \<le> n \<and> n \<le> 70 then Some (n - 55)
         else None)"

definition simple_escape :: "char \<Rightarrow> char option" where
  "simple_escape e =
     (if e = CHR 0x22 then Some (CHR 0x22)
      else if e = CHR 0x5C then Some (CHR 0x5C)
      else if e = CHR ''/'' then Some (CHR ''/'')
      else if e = CHR ''b'' then Some (CHR 0x08)
      else if e = CHR ''f'' then Some (CHR 0x0C)
      else if e = CHR ''n'' then Some (CHR 0x0A)
      else if e = CHR ''r'' then Some (CHR 0x0D)
      else if e = CHR ''t'' then Some (CHR 0x09)
      else None)"

fun json_unescape :: "string \<Rightarrow> string option" where
  "json_unescape [] = Some []"
| "json_unescape (c # rest) =
     (if c = CHR 0x5C then
        (case rest of
           [] \<Rightarrow> None
         | e # after \<Rightarrow>
             if e = CHR ''u'' then
               (case after of
                  h1 # h2 # h3 # h4 # tail \<Rightarrow>
                    (case (hex_value h1, hex_value h2, hex_value h3, hex_value h4) of
                       (Some a, Some b, Some hi, Some lo) \<Rightarrow>
                         if a = 0 \<and> b = 0
                         then map_option ((#) (char_of (16 * hi + lo))) (json_unescape tail)
                         else None
                     | _ \<Rightarrow> None)
                | _ \<Rightarrow> None)
             else (case simple_escape e of
                     None \<Rightarrow> None
                   | Some x \<Rightarrow> map_option ((#) x) (json_unescape after)))
      else if c = CHR 0x22 \<or> (of_char c :: nat) < 32 then None
      else map_option ((#) c) (json_unescape rest))"

text \<open>\<open>t\<close> is a string literal of \<open>s\<close>: a quotation mark, a body that decodes to \<open>s\<close>, a
  quotation mark.\<close>

definition string_text :: "string \<Rightarrow> string \<Rightarrow> bool" where
  "string_text s t =
     (case t of
        [] \<Rightarrow> False
      | q # rest \<Rightarrow> q = CHR 0x22 \<and> rest \<noteq> [] \<and> last rest = CHR 0x22 \<and>
                   json_unescape (butlast rest) = Some s)"

text \<open>\<open>t\<close> is a JSON literal of \<open>v\<close>, without insignificant white space: the three names,
  a number's text, a string literal, the literals of an array's elements in order between
  brackets, the literals of an object's members in order, each a string literal of the key,
  a colon and a literal of the value, between braces.\<close>

inductive json_text :: "json \<Rightarrow> string \<Rightarrow> bool" where
  null_text: "json_text JNull ''null''"
| true_text: "json_text (JBool True) ''true''"
| false_text: "json_text (JBool False) ''false''"
| number_text: "json_text (JNum t) t"
| quoted_text: "string_text s t \<Longrightarrow> json_text (JStr s) t"
| array_text: "list_all2 json_text vs ts \<Longrightarrow>
                 json_text (JArr vs) (''['' @ join_with '','' ts @ '']'')"
| object_text: "list_all2 (rel_prod string_text json_text) kvs members \<Longrightarrow>
                  json_text (JObj kvs)
                    (''{'' @ join_with '','' (map (\<lambda>(kt, vt). kt @ '':'' @ vt) members) @ ''}'')"

section \<open>Schema nodes\<close>

text \<open>
  The fields of an OpenAPI schema object or reference object that the generator reads.
  Every field is optional in the source, hence an \<^typ>\<open>'a option\<close> here.
  \<open>s_type\<close> is the \<^verbatim>\<open>type\<close> field: a string, or (OpenAPI 3.1) a list of type names.
  \<open>s_properties\<close> lists the properties in the order \<^verbatim>\<open>Object.entries\<close> yields them.
\<close>

datatype tyfield = TypeName string | TypeNames "string list"

datatype schema =
  Schema
    (s_ref: "string option")
    (s_enum: "json list option")
    (s_type: "tyfield option")
    (s_properties: "(string \<times> schema) list option")
    (s_required: "string list option")
    (s_items: "items option")
    (s_oneOf: "schema list option")
    (s_title: "string option")
    (s_description: "string option")
    (s_deprecated: "bool option")
and items = ItemList "schema list" | ItemOne schema

text \<open>The node with no field set, and single-field variations of it, to write documents with.\<close>

definition blank :: schema where
  "blank = Schema None None None None None None None None None None"

definition ref_node :: "string \<Rightarrow> schema" where
  "ref_node p = Schema (Some p) None None None None None None None None None"

definition typed :: "string \<Rightarrow> schema" where
  "typed t = Schema None None (Some (TypeName t)) None None None None None None None"

definition enum_node :: "json list \<Rightarrow> schema" where
  "enum_node vs = Schema None (Some vs) None None None None None None None None"

definition object_node :: "string list option \<Rightarrow> (string \<times> schema) list \<Rightarrow> schema" where
  "object_node req props =
     Schema None None (Some (TypeName ''object'')) (Some props) req None None None None None"

definition array_node :: "items option \<Rightarrow> schema" where
  "array_node its = Schema None None (Some (TypeName ''array'')) None None its None None None None"

text \<open>
  Modelled from the spec: \<^verbatim>\<open>isReferenceObject\<close> lives in \<^verbatim>\<open>./openapi\<close>, which is not among
  the sources. A node is a reference exactly when it carries a \<^verbatim>\<open>$ref\<close> pointer. The
  functions below test it by a case distinction on \<open>s_ref\<close>, which also yields the pointer.
\<close>

definition isReferenceObject :: "schema \<Rightarrow> bool" where
  "isReferenceObject node = (s_ref node \<noteq> None)"

section \<open>External collaborators, errors, outcomes\<close>

datatype error = Unresolvable string | PrinterFailure string

text \<open>
  \<^verbatim>\<open>findBy$ref\<close> and \<^verbatim>\<open>get$refName\<close> (from \<^verbatim>\<open>./openapi\<close>) and \<^verbatim>\<open>format\<close> (from
  \<^verbatim>\<open>../utils\<close>, called with \<^verbatim>\<open>{semi: false}\<close>) are not among the sources: they are
  parameters of the model. The document type \<open>'d\<close> is whatever the resolver reads.
  A resolver or printer that fails returns \<open>Inl\<close>.
\<close>

record 'd env =
  findBy_ref :: "string \<Rightarrow> 'd \<Rightarrow> error + schema"
  get_refName :: "string \<Rightarrow> string"
  format :: "string \<Rightarrow> error + string"

text \<open>
  What a synchronous call does: it returns a value, throws, or never returns
  (unbounded recursion). The state \<open>'s\<close> is whatever the callbacks act on.
\<close>

datatype ('a, 's) outcome = Diverged | Threw error 's | Returned 'a 's

datatype commentStyle = Line | Docment

text \<open>\<^verbatim>\<open>Schema2TypeOptions\<close>. A callback takes the reference object and the state; it
  yields \<open>None\<close> when it does not return. A callback that throws into the engine is not
  modelled: the one callback the sources install is an async function, which never does.\<close>

record 's config =
  deep :: "bool option"
  defaultType :: "string option"
  commentStyle :: "commentStyle option"
  preText :: "string option"
  on_Ref :: "(schema \<Rightarrow> 's \<Rightarrow> 's option) option"

text \<open>\<^verbatim>\<open>config.on$Ref?.(node)\<close>\<close>

definition notify :: "'s config \<Rightarrow> schema \<Rightarrow> 's \<Rightarrow> 's option" where
  "notify cfg node s = (case on_Ref cfg of None \<Rightarrow> Some s | Some f \<Rightarrow> f node s)"

text \<open>\<^verbatim>\<open>config.defaultType ?? 'unknown'\<close>\<close>

definition default_or_unknown :: "'s config \<Rightarrow> string" where
  "default_or_unknown cfg = (case defaultType cfg of None \<Rightarrow> ''unknown'' | Some d \<Rightarrow> d)"

section \<open>The comment builder\<close>

text \<open>The closure returned by \<^verbatim>\<open>comment(type)\<close>: its style and its two mutable variables.\<close>

record comment_builder =
  style :: commentStyle
  str :: string
  idx :: nat

definition comment :: "commentStyle \<Rightarrow> comment_builder" where
  "comment ty = \<lparr>style = ty, str = '''', idx = 0\<rparr>"

text \<open>The \<^verbatim>\<open>[title]\<close> transformer: the capture of \<^verbatim>\<open>/\[title\](.*)/\<close> stops at a line
  terminator.\<close>

definition title_transform :: "string \<Rightarrow> string" where
  "title_transform text =
     (let nextText = (case after_first ''[title]'' text of
                        None \<Rightarrow> ''''
                      | Some rest \<Rightarrow> takeWhile (\<lambda>c. c \<noteq> nl \<and> c \<noteq> cr) rest)
      in trim nextText @ [nl] @ ''---'')"

definition transformeText :: "commentStyle \<Rightarrow> string \<Rightarrow> string" where
  "transformeText ty text =
     (if ty = Line then text
      else if prefix ''[title]'' text then title_transform text
      else if text = ''[deprecated]'' then ''@deprecated''
      else text)"

definition add :: "string \<Rightarrow> comment_builder \<Rightarrow> comment_builder" where
  "add text b =
     (let preText = (if style b = Docment then '' *'' else ''//'');
          str1 = (if idx b \<noteq> 0 then str b @ [nl] else str b)
      in b\<lparr>str := str1 @ join_with [nl]
                        (map (\<lambda>item. preText @ '' '' @ item) (split_on nl (transformeText (style b) text))),
           idx := idx b + 1\<rparr>)"

definition comment_end :: "comment_builder \<Rightarrow> string" where
  "comment_end b =
     (let startText = (if style b = Docment then ''/**'' @ [nl] else '''');
          endText = (if style b = Docment then [nl] @ '' */'' @ [nl] else [nl])
      in if str b = '''' then str b else startText @ str b @ endText)"

section \<open>The schema-to-type engine\<close>

text \<open>\<^verbatim>\<open>parseEnum\<close>: the members through \<^verbatim>\<open>JSON.stringify\<close>, joined by \<^verbatim>\<open> | \<close>.\<close>

definition parseEnum :: "schema \<Rightarrow> string" where
  "parseEnum schema =
     (case s_enum schema of
        None \<Rightarrow> ''''
      | Some vs \<Rightarrow> join_with '' | '' (map stringify vs))"

text \<open>
  The three mutually recursive functions of the source are written with the recursive call
  \<^verbatim>\<open>parseSchema(\<dots>, openApi, config)\<close> as the parameter \<open>rec\<close>; \<open>parseSchema\<close> below
  passes itself. A list is walked left to right, the state threaded through, and the walk
  stops at the first element that throws or does not return.
\<close>

fun parse_each ::
  "(schema \<Rightarrow> 's \<Rightarrow> (string, 's) outcome) \<Rightarrow> schema list \<Rightarrow> 's \<Rightarrow> (string list, 's) outcome" where
  "parse_each rec [] s = Returned [] s"
| "parse_each rec (item # rest) s =
     (case rec item s of
        Diverged \<Rightarrow> Diverged
      | Threw e s' \<Rightarrow> Threw e s'
      | Returned ty s' \<Rightarrow>
          (case parse_each rec rest s' of
             Diverged \<Rightarrow> Diverged
           | Threw e s'' \<Rightarrow> Threw e s''
           | Returned tys s'' \<Rightarrow> Returned (ty # tys) s''))"

text \<open>The text one property contributes: its comment, then \<^verbatim>\<open>key?: type;\<close>.\<close>

definition property_text :: "'s config \<Rightarrow> schema \<Rightarrow> string \<Rightarrow> bool \<Rightarrow> string \<Rightarrow> string" where
  "property_text cfg val key is_required ty =
     (let optionalFlag = (if is_required then '''' else ''?'');
          doc0 = comment (case commentStyle cfg of None \<Rightarrow> Line | Some st \<Rightarrow> st);
          doc1 = (case s_title val of
                    None \<Rightarrow> doc0
                  | Some t \<Rightarrow> if t = '''' then doc0 else add (''[title] '' @ t) doc0);
          doc2 = (case s_description val of
                    None \<Rightarrow> doc1
                  | Some d \<Rightarrow> if d = '''' then doc1 else add d doc1);
          doc3 = (if is_required then add ''[required]'' doc2 else doc2);
          doc4 = (if s_deprecated val = Some True then add ''[deprecated]'' doc3 else doc3)
      in comment_end doc4 @ key @ optionalFlag @ '': '' @ ty @ '';'')"

text \<open>The \<^verbatim>\<open>for \<dots> of Object.entries(properties)\<close> loop of \<^verbatim>\<open>parseObject\<close>.\<close>

fun parseObject_loop ::
  "(schema \<Rightarrow> 's \<Rightarrow> (string, 's) outcome) \<Rightarrow> 'd env \<Rightarrow> 'd \<Rightarrow> 's config \<Rightarrow> string list \<Rightarrow>
   (string \<times> schema) list \<Rightarrow> string list \<Rightarrow> 's \<Rightarrow> (string list, 's) outcome" where
  "parseObject_loop rec env openApi cfg required [] lines s = Returned lines s"
| "parseObject_loop rec env openApi cfg required ((key, valueOrigin) # rest) lines s =
     (case (case s_ref valueOrigin of
              None \<Rightarrow> Inr valueOrigin
            | Some p \<Rightarrow> findBy_ref env p openApi) of
        Inl e \<Rightarrow> Threw e s
      | Inr val \<Rightarrow>
          (case rec valueOrigin s of
             Diverged \<Rightarrow> Diverged
           | Threw e s' \<Rightarrow> Threw e s'
           | Returned ty s' \<Rightarrow>
               parseObject_loop rec env openApi cfg required rest
                 (lines @ map (\<lambda>line. '' '' @ line)
                            (split_on nl (property_text cfg val key (key \<in> set required) ty)))
                 s'))"

definition parseObject ::
  "(schema \<Rightarrow> 's \<Rightarrow> (string, 's) outcome) \<Rightarrow> 'd env \<Rightarrow> schema \<Rightarrow> 'd \<Rightarrow> 's config \<Rightarrow> 's \<Rightarrow>
   (string, 's) outcome" where
  "parseObject rec env schema openApi cfg s =
     (let properties = (case s_properties schema of None \<Rightarrow> [] | Some ps \<Rightarrow> ps);
          required = (case s_required schema of None \<Rightarrow> [] | Some rs \<Rightarrow> rs)
      in case parseObject_loop rec env openApi cfg required properties [''{''] s of
           Diverged \<Rightarrow> Diverged
         | Threw e s' \<Rightarrow> Threw e s'
         | Returned lines0 s' \<Rightarrow>
             (let lines = lines0 @ [''}'']
              in Returned (if length lines > 2 then join_with [nl] lines else ''object'') s'))"

text \<open>
  \<^verbatim>\<open>parseArray\<close>. In the tuple branch the template literal converts the array
  \<^verbatim>\<open>types.map(type => `${type},\n`)\<close> to a string, which joins its elements with a comma.
\<close>

definition parseArray ::
  "(schema \<Rightarrow> 's \<Rightarrow> (string, 's) outcome) \<Rightarrow> 'd env \<Rightarrow> schema \<Rightarrow> 'd \<Rightarrow> 's config \<Rightarrow> 's \<Rightarrow>
   (string, 's) outcome" where
  "parseArray rec env schema openApi cfg s =
     (case s_items schema of
        None \<Rightarrow> Returned ''[]'' s
      | Some (ItemList its) \<Rightarrow>
          (case parse_each rec its s of
             Diverged \<Rightarrow> Diverged
           | Threw e s' \<Rightarrow> Threw e s'
           | Returned types s' \<Rightarrow>
               Returned (''['' @ [nl] @ join_with '','' (map (\<lambda>ty. ty @ '','' @ [nl]) types)
                         @ [nl] @ '']'') s')
      | Some (ItemOne it) \<Rightarrow>
          (let wrap = (\<lambda>items ty.
                 if s_type items = Some (TypeName ''object'') then ''Array<'' @ ty @ ''>''
                 else if s_type items = Some (TypeName ''array'') then ty @ ''[]''
                 else if s_oneOf items \<noteq> None \<or> s_enum items \<noteq> None then ''('' @ ty @ '')[]''
                 else ty @ ''[]'');
               continue = (\<lambda>items s0.
                 case rec items s0 of
                   Diverged \<Rightarrow> Diverged
                 | Threw e s' \<Rightarrow> Threw e s'
                 | Returned ty s' \<Rightarrow> Returned (wrap items ty) s')
           in case s_ref it of
                None \<Rightarrow> continue it s
              | Some p \<Rightarrow>
                  if deep cfg \<noteq> Some True then
                    (case notify cfg it s of
                       None \<Rightarrow> Diverged
                     | Some s1 \<Rightarrow> Returned (get_refName env p @ ''[]'') s1)
                  else (case findBy_ref env p openApi of
                          Inl e \<Rightarrow> Threw e s
                        | Inr items \<Rightarrow> continue items s)))"

text \<open>Lines 82 to 106 of \<^verbatim>\<open>parseSchema\<close>: the dispatch on the node after a reference,
  if any, has been resolved.\<close>

definition dispatch ::
  "(schema \<Rightarrow> 's \<Rightarrow> (string, 's) outcome) \<Rightarrow> 'd env \<Rightarrow> schema \<Rightarrow> 'd \<Rightarrow> 's config \<Rightarrow> 's \<Rightarrow>
   (string, 's) outcome" where
  "dispatch rec env schema openApi cfg s =
     (if s_enum schema \<noteq> None then Returned (parseEnum schema) s
      else if s_type schema = Some (TypeName ''object'') then parseObject rec env schema openApi cfg s
      else if s_type schema = Some (TypeName ''array'') then parseArray rec env schema openApi cfg s
      else if s_type schema = Some (TypeName ''string'') then Returned ''string'' s
      else if s_type schema = Some (TypeName ''number'') then Returned ''number'' s
      else if s_type schema = Some (TypeName ''integer'') then Returned ''number'' s
      else if s_type schema = Some (TypeName ''boolean'') then Returned ''boolean'' s
      else if s_type schema = Some (TypeName ''null'') then Returned ''null'' s
      else (case s_oneOf schema of
              Some branches \<Rightarrow>
                (case parse_each rec branches s of
                   Diverged \<Rightarrow> Diverged
                 | Threw e s' \<Rightarrow> Threw e s'
                 | Returned tys s' \<Rightarrow> Returned (join_with '' | '' tys) s')
            | None \<Rightarrow>
                (case s_type schema of
                   Some (TypeName t) \<Rightarrow>
                     Returned (if t \<noteq> '''' then t else default_or_unknown cfg) s
                 | _ \<Rightarrow> Returned (default_or_unknown cfg) s)))"

text \<open>
  \<^verbatim>\<open>parseSchema\<close>. The first argument bounds the depth of nested \<^verbatim>\<open>parseSchema\<close> calls:
  a call that would need more is \<open>Diverged\<close>. A run of the source returns exactly when some
  bound gives \<open>Returned\<close>, and recurses without end when every bound gives \<open>Diverged\<close>.
\<close>

primrec parseSchema ::
  "nat \<Rightarrow> 'd env \<Rightarrow> schema \<Rightarrow> 'd \<Rightarrow> 's config \<Rightarrow> 's \<Rightarrow> (string, 's) outcome" where
  "parseSchema 0 env schemaOrigin openApi cfg s = Diverged"
| "parseSchema (Suc n) env schemaOrigin openApi cfg s =
     (case s_ref schemaOrigin of
        None \<Rightarrow>
          dispatch (\<lambda>item. parseSchema n env item openApi cfg) env schemaOrigin openApi cfg s
      | Some p \<Rightarrow>
          (case notify cfg schemaOrigin s of
             None \<Rightarrow> Diverged
           | Some s1 \<Rightarrow>
               if deep cfg \<noteq> Some True then Returned (get_refName env p) s1
               else (case findBy_ref env p openApi of
                       Inl e \<Rightarrow> Threw e s1
                     | Inr schema \<Rightarrow>
                         dispatch (\<lambda>item. parseSchema n env item openApi cfg)
                           env schema openApi cfg s1)))"

section \<open>The declaration formatter\<close>

text \<open>
  \<^verbatim>\<open>convertToType\<close> is an async function: it runs synchronously up to its only
  \<^verbatim>\<open>await\<close>, the call of the printer, and nothing after that point touches the state.
  The model returns the value the promise settles to (\<open>Inl\<close> when it rejects) together
  with the state at the end of the synchronous part, and \<open>None\<close> when the synchronous part
  does not return. The schema argument is optional: the source tests \<^verbatim>\<open>!schemaOrigin\<close>.
  An absent \<^verbatim>\<open>preText\<close> concatenates as the text \<^verbatim>\<open>undefined\<close>.
\<close>

definition convertToType ::
  "nat \<Rightarrow> 'd env \<Rightarrow> schema option \<Rightarrow> 'd \<Rightarrow> 's config \<Rightarrow> 's \<Rightarrow> ((error + string) \<times> 's) option" where
  "convertToType n env schemaOrigin openApi cfg s =
     (case schemaOrigin of
        None \<Rightarrow> Some (Inr (default_or_unknown cfg), s)
      | Some node \<Rightarrow>
          (case parseSchema n env node openApi cfg s of
             Diverged \<Rightarrow> None
           | Threw e s' \<Rightarrow> Some (Inl e, s')
           | Returned tsStr s' \<Rightarrow>
               (case format env (''type Ts = '' @ tsStr) of
                  Inl e \<Rightarrow> Some (Inl e, s')
                | Inr tsStrFormat \<Rightarrow>
                    (let resultFormat = (case after_first ''type Ts = '' tsStrFormat of
                                           None \<Rightarrow> ''''
                                         | Some rest \<Rightarrow> rest);
                         tsStrArr = split_on nl (trim resultFormat);
                         pre = (case preText cfg of None \<Rightarrow> ''undefined'' | Some t \<Rightarrow> t)
                     in Some (Inr (join_with [nl]
                                     (case tsStrArr of
                                        [] \<Rightarrow> []
                                      | first # others \<Rightarrow> first # map (\<lambda>l. pre @ l) others)),
                              s')))))"

section \<open>The reference collector\<close>

text \<open>
  The collector's state: the \<^verbatim>\<open>Map\<close> passed around by reference (\<open>memo\<close>); the
  invocations of the \<^verbatim>\<open>on$Ref\<close> callback that are suspended at their \<^verbatim>\<open>await\<close>, each
  with its name and the value the awaited promise settles to (\<open>pending\<close>); and the calls
  of the caller's \<^verbatim>\<open>on$RefTsStr\<close> made so far, each with the name and text passed and
  the memo as it was at the moment of the call (\<open>calls\<close>).
\<close>

record cstate =
  memo :: "string \<rightharpoonup> string"
  pending :: "(string \<times> (error + string)) list"
  calls :: "(string \<times> string \<times> (string \<rightharpoonup> string)) list"

text \<open>\<^verbatim>\<open>JsonSchema2TsOptions\<close>; \<open>has_on_RefTsStr\<close> tells whether the caller supplied the
  callback.\<close>

record JsonSchema2TsOptions =
  export_opt :: "bool option"
  deep_opt :: "bool option"
  has_on_RefTsStr :: bool

text \<open>\<^verbatim>\<open>options.on$RefTsStr(name, tsStr)\<close>: the caller's callback is known by the record of
  its calls.\<close>

definition on_RefTsStr :: "string \<Rightarrow> string \<Rightarrow> cstate \<Rightarrow> cstate" where
  "on_RefTsStr name tsStr st = st\<lparr>calls := calls st @ [(name, tsStr, memo st)]\<rparr>"

text \<open>
  The synchronous part of the \<^verbatim>\<open>on$Ref\<close> closure of \<^verbatim>\<open>jsonSchema2TsStr\<close>, with the
  recursive call as the parameter \<open>rec\<close>. Being async, the closure always returns a promise
  to \<^verbatim>\<open>parseSchema\<close>, which does not await it and goes on: a failing resolver only rejects
  that promise, and so does a nested \<^verbatim>\<open>jsonSchema2TsStr\<close> whose synchronous part does not
  return within the recursion bound (in the source the stack overflows there, and the
  \<^verbatim>\<open>RangeError\<close> is caught by the nearest enclosing async function). In both cases nothing
  is stored and the caller's callback is not called by this invocation; for the second the
  model goes on from the state the closure was entered with. On a name that is not in the memo the closure runs
  the synchronous part of the nested \<^verbatim>\<open>jsonSchema2TsStr\<close> and then waits; what it does after
  the wait is \<open>resume\<close>. The engine calls it on reference objects only; on any other node
  the model leaves the state as it is.
\<close>

definition collector_on_Ref ::
  "(schema \<Rightarrow> string \<Rightarrow> cstate \<Rightarrow> ((error + string) \<times> cstate) option) \<Rightarrow>
   'd env \<Rightarrow> 'd \<Rightarrow> JsonSchema2TsOptions \<Rightarrow> schema \<Rightarrow> cstate \<Rightarrow> cstate option" where
  "collector_on_Ref rec env openApi options refObject st =
     (if \<not> has_on_RefTsStr options then Some st
      else (case s_ref refObject of
              None \<Rightarrow> Some st
            | Some p \<Rightarrow>
                (let name = get_refName env p
                 in case memo st name of
                      Some cached \<Rightarrow> Some (on_RefTsStr name cached st)
                    | None \<Rightarrow>
                        (case findBy_ref env p openApi of
                           Inl e \<Rightarrow> Some st
                         | Inr node \<Rightarrow>
                             (case rec node name st of
                                None \<Rightarrow> Some st
                              | Some (result, st') \<Rightarrow>
                                  Some (st'\<lparr>pending := pending st' @ [(name, result)]\<rparr>))))))"

text \<open>After the wait: \<^verbatim>\<open>map.set(name, result); options.on$RefTsStr(name, result)\<close>, or
  nothing when the awaited promise rejected.\<close>

definition resume :: "string \<times> (error + string) \<Rightarrow> cstate \<Rightarrow> cstate" where
  "resume task st =
     (case snd task of
        Inl e \<Rightarrow> st
      | Inr result \<Rightarrow> on_RefTsStr (fst task) result (st\<lparr>memo := (memo st)(fst task \<mapsto> result)\<rparr>))"

text \<open>The event loop resumes the suspended invocations in an order the program does not
  control: \<open>run\<close> follows a schedule, a list of positions in \<open>pending\<close>.\<close>

fun run :: "nat list \<Rightarrow> cstate \<Rightarrow> cstate" where
  "run [] st = st"
| "run (i # sched) st =
     (if i < length (pending st)
      then run sched (resume (pending st ! i)
                        (st\<lparr>pending := take i (pending st) @ drop (Suc i) (pending st)\<rparr>))
      else run sched st)"

text \<open>
  \<^verbatim>\<open>jsonSchema2TsStr\<close>: the value its promise settles to and the state when its
  synchronous part has returned. The first argument bounds the depth of nested calls, as in
  \<open>parseSchema\<close>; \<open>None\<close> is a synchronous part that does not return within the bound.
\<close>

primrec jsonSchema2TsStr ::
  "nat \<Rightarrow> 'd env \<Rightarrow> schema option \<Rightarrow> string \<Rightarrow> 'd \<Rightarrow> JsonSchema2TsOptions \<Rightarrow> cstate \<Rightarrow>
   ((error + string) \<times> cstate) option" where
  "jsonSchema2TsStr 0 env schema name openApi options st = None"
| "jsonSchema2TsStr (Suc n) env schema name openApi options st =
     (case convertToType n env schema openApi
             \<lparr>deep = deep_opt options, defaultType = Some ''unknown'',
              commentStyle = Some Docment, preText = Some '''',
              on_Ref = Some (collector_on_Ref
                               (\<lambda>node nm. jsonSchema2TsStr n env (Some node) nm openApi options)
                               env openApi options)\<rparr>
             st of
        None \<Rightarrow> None
      | Some (Inl e, st') \<Rightarrow> Some (Inl e, st')
      | Some (Inr tsStr, st') \<Rightarrow>
          (let result = ''interface '' @ name @ '' '' @ tsStr
           in Some (Inr (if export_opt options = Some True then ''export '' @ result else result),
                    st')))"

section \<open>A document to run the generator on\<close>

text \<open>A resolver over a table from pointers to nodes, the last path segment as display
  name, and a printer that returns its input unchanged.\<close>

definition table_env :: "(string \<times> schema) list env" where
  "table_env =
     \<lparr>findBy_ref = (\<lambda>p d. case map_of d p of None \<Rightarrow> Inl (Unresolvable p) | Some node \<Rightarrow> Inr node),
      get_refName = (\<lambda>p. last (split_on CHR ''/'' p)),
      format = (\<lambda>text. Inr text)\<rparr>"

text \<open>The default configuration of \<^verbatim>\<open>convertToType\<close>, without observer.\<close>

definition default_config :: "'s config" where
  "default_config =
     \<lparr>deep = Some True, defaultType = Some ''unknown'', commentStyle = Some Line,
      preText = Some '''', on_Ref = None\<rparr>"

text \<open>An observer that records the reference objects it is given.\<close>

definition record_ref :: "schema \<Rightarrow> schema list \<Rightarrow> schema list option" where
  "record_ref node seen = Some (seen @ [node])"

definition fresh :: cstate where
  "fresh = \<lparr>memo = Map.empty, pending = [], calls = []\<rparr>"

text \<open>Two named schemas that reference each other through a property.\<close>

definition schema_A :: schema where
  "schema_A = object_node None [(''b'', ref_node ''#/components/schemas/B'')]"

definition schema_B :: schema where
  "schema_B = object_node None [(''a'', ref_node ''#/components/schemas/A'')]"

definition cyclic_doc :: "(string \<times> schema) list" where
  "cyclic_doc = [(''#/components/schemas/A'', schema_A), (''#/components/schemas/B'', schema_B)]"

text \<open>A printer whose output never holds the text \<^verbatim>\<open>type Ts = \<close>.\<close>

definition mute_env :: "(string \<times> schema) list env" where
  "mute_env = table_env\<lparr>format := (\<lambda>text. Inr ''interface Ts {}'')\<rparr>"

text \<open>A document in which \<^verbatim>\<open>A\<close> references \<^verbatim>\<open>B\<close> from two properties.\<close>

definition twice_doc :: "(string \<times> schema) list" where
  "twice_doc =
     [(''#/components/schemas/A'',
         object_node None [(''b'', ref_node ''#/components/schemas/B''),
                           (''again'', ref_node ''#/components/schemas/B'')]),
      (''#/components/schemas/B'', object_node None [(''x'', typed ''string'')])]"

definition shallow_options :: JsonSchema2TsOptions where
  "shallow_options = \<lparr>export_opt = Some False, deep_opt = Some False, has_on_RefTsStr = True\<rparr>"

section \<open>Notions the properties are stated with\<close>

text \<open>The state a call leaves behind, if it returns or throws.\<close>

definition final_state :: "('a, 's) outcome \<Rightarrow> 's option" where
  "final_state out = (case out of Diverged \<Rightarrow> None | Threw e s \<Rightarrow> Some s | Returned a s \<Rightarrow> Some s)"

definition ends_in :: "('s \<Rightarrow> bool) \<Rightarrow> ('a, 's) outcome \<Rightarrow> bool" where
  "ends_in I out = (case final_state out of None \<Rightarrow> True | Some s \<Rightarrow> I s)"

text \<open>Every call of \<^verbatim>\<open>on$RefTsStr\<close> made so far found its name mapped to the text it was
  given.\<close>

definition sink_ok :: "cstate \<Rightarrow> bool" where
  "sink_ok st = list_all (\<lambda>(name, tsStr, m). m name = Some tsStr) (calls st)"

text \<open>Two outcomes are alike when they differ at most in the state they leave.\<close>

definition alike :: "('a, 's) outcome \<Rightarrow> ('a, 's) outcome \<Rightarrow> bool" where
  "alike o1 o2 =
     (case o1 of
        Diverged \<Rightarrow> o2 = Diverged
      | Threw e s \<Rightarrow> (\<exists>s'. o2 = Threw e s')
      | Returned a s \<Rightarrow> (\<exists>s'. o2 = Returned a s'))"

text \<open>An observer that records the reference objects it is given but never returns from
  one that carries the pointer \<open>p\<close>.\<close>

definition record_other :: "string \<Rightarrow> schema \<Rightarrow> schema list \<Rightarrow> schema list option" where
  "record_other p node seen = (if s_ref node = Some p then None else Some (seen @ [node]))"

text \<open>A document in which \<^verbatim>\<open>Pet\<close> references \<^verbatim>\<open>Owner\<close>.\<close>

definition pet_doc :: "(string \<times> schema) list" where
  "pet_doc =
     [(''#/components/schemas/Pet'', object_node None [(''owner'', ref_node ''#/components/schemas/Owner'')]),
      (''#/components/schemas/Owner'', object_node None [(''name'', typed ''string'')])]"

text \<open>\<open>node\<close> is an object schema one of whose properties is a reference that resolves
  to \<open>target\<close>.\<close>

definition refers_to :: "'d env \<Rightarrow> 'd \<Rightarrow> schema \<Rightarrow> schema \<Rightarrow> bool" where
  "refers_to env openApi node target =
     (s_ref node = None \<and> s_enum node = None \<and> s_type node = Some (TypeName ''object'') \<and>
      list_ex (\<lambda>(key, r). case s_ref r of
                            None \<Rightarrow> False
                          | Some p \<Rightarrow> findBy_ref env p openApi = Inr target)
        (case s_properties node of None \<Rightarrow> [] | Some ps \<Rightarrow> ps))"

section \<open>The recursion bound\<close>

text \<open>
  A bound that lets \<^verbatim>\<open>parseSchema\<close> return or throw can be raised without changing
  the outcome: the bound only decides whether the model sees the end of a run.
\<close>

lemma parse_each_mono:
  assumes "\<And>item s. rec item s \<noteq> Diverged \<Longrightarrow> rec' item s = rec item s"
  shows "parse_each rec its s \<noteq> Diverged \<Longrightarrow> parse_each rec' its s = parse_each rec its s"
proof (induction its arbitrary: s)
  case Nil
  then show ?case by simp
next
  case (Cons item rest)
  from Cons.prems have head: "rec item s \<noteq> Diverged"
    by (auto split: outcome.splits)
  show ?case
  proof (cases "rec item s")
    case Diverged
    with head show ?thesis by simp
  next
    case (Threw e s1)
    then show ?thesis using assms [OF head] by simp
  next
    case (Returned ty s1)
    with Cons.prems have "parse_each rec rest s1 \<noteq> Diverged"
      by (auto split: outcome.splits)
    then have "parse_each rec' rest s1 = parse_each rec rest s1" by (rule Cons.IH)
    then show ?thesis using Returned assms [OF head] by simp
  qed
qed

lemma parseObject_loop_mono:
  assumes "\<And>item s. rec item s \<noteq> Diverged \<Longrightarrow> rec' item s = rec item s"
  shows "parseObject_loop rec env openApi cfg required props lines s \<noteq> Diverged \<Longrightarrow>
         parseObject_loop rec' env openApi cfg required props lines s
           = parseObject_loop rec env openApi cfg required props lines s"
proof (induction props arbitrary: lines s)
  case Nil
  then show ?case by simp
next
  case (Cons kv rest)
  obtain key valueOrigin where kv: "kv = (key, valueOrigin)" by (cases kv)
  show ?case
  proof (cases "case s_ref valueOrigin of None \<Rightarrow> Inr valueOrigin | Some p \<Rightarrow> findBy_ref env p openApi")
    case (Inl e)
    then show ?thesis unfolding kv by simp
  next
    case (Inr val)
    with Cons.prems have head: "rec valueOrigin s \<noteq> Diverged"
      unfolding kv by (auto split: outcome.splits)
    show ?thesis
    proof (cases "rec valueOrigin s")
      case Diverged
      with head show ?thesis by simp
    next
      case (Threw e s1)
      then show ?thesis using assms [OF head] Inr unfolding kv by simp
    next
      case (Returned ty s1)
      then show ?thesis
        using Cons.prems Inr assms [OF head] Cons.IH unfolding kv by simp
    qed
  qed
qed

lemma map_outcome_Diverged:
  "((case out of Diverged \<Rightarrow> Diverged | Threw e s \<Rightarrow> Threw e s | Returned a s \<Rightarrow> Returned (f a) s) = Diverged)
   = (out = Diverged)"
  by (cases out) simp_all

lemma parseObject_mono:
  assumes "\<And>item s. rec item s \<noteq> Diverged \<Longrightarrow> rec' item s = rec item s"
    and "parseObject rec env schema openApi cfg s \<noteq> Diverged"
  shows "parseObject rec' env schema openApi cfg s = parseObject rec env schema openApi cfg s"
proof -
  let ?loop = "\<lambda>r. parseObject_loop r env openApi cfg
                 (case s_required schema of None \<Rightarrow> [] | Some rs \<Rightarrow> rs)
                 (case s_properties schema of None \<Rightarrow> [] | Some ps \<Rightarrow> ps) [''{''] s"
  have loop: "?loop rec \<noteq> Diverged \<Longrightarrow> ?loop rec' = ?loop rec"
    by (rule parseObject_loop_mono [where rec = rec and rec' = rec', OF assms(1)])
  from assms(2) have "?loop rec \<noteq> Diverged"
    by (auto simp: parseObject_def Let_def split: outcome.splits)
  with loop show ?thesis by (simp add: parseObject_def)
qed

lemma parseArray_mono:
  assumes "\<And>item s. rec item s \<noteq> Diverged \<Longrightarrow> rec' item s = rec item s"
    and "parseArray rec env schema openApi cfg s \<noteq> Diverged"
  shows "parseArray rec' env schema openApi cfg s = parseArray rec env schema openApi cfg s"
proof (cases "s_items schema")
  case None
  then show ?thesis by (simp add: parseArray_def map_outcome_Diverged)
next
  case (Some its)
  show ?thesis
  proof (cases its)
    case (ItemList list)
    with Some assms(2) have "parse_each rec list s \<noteq> Diverged"
      by (simp add: parseArray_def map_outcome_Diverged)
    moreover have "parse_each rec list s \<noteq> Diverged \<Longrightarrow>
                     parse_each rec' list s = parse_each rec list s"
      by (rule parse_each_mono [where rec = rec and rec' = rec', OF assms(1)])
    ultimately show ?thesis using Some ItemList by (simp add: parseArray_def map_outcome_Diverged)
  next
    case (ItemOne it)
    show ?thesis
    proof (cases "s_ref it")
      case None
      with Some ItemOne assms(2) have "rec it s \<noteq> Diverged"
        by (simp add: parseArray_def map_outcome_Diverged)
      then have "rec' it s = rec it s" by (rule assms(1))
      then show ?thesis using Some ItemOne None by (simp add: parseArray_def map_outcome_Diverged)
    next
      case (Some p)
      show ?thesis
      proof (cases "deep cfg = Some True")
        case False
        then show ?thesis
          using \<open>s_items schema = Some its\<close> ItemOne Some by (simp add: parseArray_def map_outcome_Diverged)
      next
        case True
        show ?thesis
        proof (cases "findBy_ref env p openApi")
          case (Inl e)
          then show ?thesis
            using \<open>s_items schema = Some its\<close> ItemOne Some True by (simp add: parseArray_def map_outcome_Diverged)
        next
          case (Inr items)
          with \<open>s_items schema = Some its\<close> ItemOne Some True assms(2)
          have "rec items s \<noteq> Diverged" by (simp add: parseArray_def map_outcome_Diverged)
          then have "rec' items s = rec items s" by (rule assms(1))
          then show ?thesis
            using \<open>s_items schema = Some its\<close> ItemOne Some True Inr by (simp add: parseArray_def map_outcome_Diverged)
        qed
      qed
    qed
  qed
qed

lemma dispatch_mono:
  assumes "\<And>item s. rec item s \<noteq> Diverged \<Longrightarrow> rec' item s = rec item s"
    and "dispatch rec env schema openApi cfg s \<noteq> Diverged"
  shows "dispatch rec' env schema openApi cfg s = dispatch rec env schema openApi cfg s"
proof -
  have obj: "parseObject rec env schema openApi cfg s \<noteq> Diverged \<Longrightarrow>
        parseObject rec' env schema openApi cfg s = parseObject rec env schema openApi cfg s"
    by (rule parseObject_mono [where rec = rec and rec' = rec', OF assms(1)])
  have arr: "parseArray rec env schema openApi cfg s \<noteq> Diverged \<Longrightarrow>
        parseArray rec' env schema openApi cfg s = parseArray rec env schema openApi cfg s"
    by (rule parseArray_mono [where rec = rec and rec' = rec', OF assms(1)])
  have each: "parse_each rec bs s \<noteq> Diverged \<Longrightarrow> parse_each rec' bs s = parse_each rec bs s" for bs
    by (rule parse_each_mono [where rec = rec and rec' = rec', OF assms(1)])
  show ?thesis
    using assms(2) obj arr each
    by (simp add: dispatch_def map_outcome_Diverged split: option.splits if_splits)
qed

lemma parseSchema_mono:
  "parseSchema n env node openApi cfg s \<noteq> Diverged \<Longrightarrow>
   parseSchema (Suc n) env node openApi cfg s = parseSchema n env node openApi cfg s"
proof (induction n arbitrary: node s)
  case 0
  then show ?case by simp
next
  case (Suc n)
  let ?r0 = "\<lambda>item. parseSchema n env item openApi cfg"
  let ?r1 = "\<lambda>item. parseSchema (Suc n) env item openApi cfg"
  have step: "dispatch ?r0 env sch openApi cfg s0 \<noteq> Diverged \<Longrightarrow>
     dispatch ?r1 env sch openApi cfg s0 = dispatch ?r0 env sch openApi cfg s0" for sch s0
    by (rule dispatch_mono [where rec = ?r0]) (rule Suc.IH)
  have lo: "parseSchema (Suc n) env node openApi cfg s =
     (case s_ref node of
        None \<Rightarrow> dispatch ?r0 env node openApi cfg s
      | Some p \<Rightarrow>
          (case notify cfg node s of
             None \<Rightarrow> Diverged
           | Some s1 \<Rightarrow>
               if deep cfg \<noteq> Some True then Returned (get_refName env p) s1
               else (case findBy_ref env p openApi of
                       Inl e \<Rightarrow> Threw e s1
                     | Inr schema \<Rightarrow> dispatch ?r0 env schema openApi cfg s1)))"
    by (rule parseSchema.simps(2))
  have hi: "parseSchema (Suc (Suc n)) env node openApi cfg s =
     (case s_ref node of
        None \<Rightarrow> dispatch ?r1 env node openApi cfg s
      | Some p \<Rightarrow>
          (case notify cfg node s of
             None \<Rightarrow> Diverged
           | Some s1 \<Rightarrow>
               if deep cfg \<noteq> Some True then Returned (get_refName env p) s1
               else (case findBy_ref env p openApi of
                       Inl e \<Rightarrow> Threw e s1
                     | Inr schema \<Rightarrow> dispatch ?r1 env schema openApi cfg s1)))"
    by (rule parseSchema.simps(2))
  show ?case
    using Suc.prems step unfolding lo hi
    by (auto split: option.splits sum.splits if_splits)
qed

lemma parseSchema_more:
  "parseSchema n env node openApi cfg s \<noteq> Diverged \<Longrightarrow>
   parseSchema (n + k) env node openApi cfg s = parseSchema n env node openApi cfg s"
proof (induction k)
  case 0
  then show ?case by simp
next
  case (Suc k)
  then have "parseSchema (n + k) env node openApi cfg s \<noteq> Diverged" by simp
  then have "parseSchema (Suc (n + k)) env node openApi cfg s = parseSchema (n + k) env node openApi cfg s"
    by (rule parseSchema_mono)
  with Suc show ?case by simp
qed

text \<open>\<^verbatim>\<open>isReferenceObject\<close> is what the case distinctions on \<open>s_ref\<close> decide.\<close>

lemma isReferenceObject_iff: "isReferenceObject node \<longleftrightarrow> (\<exists>p. s_ref node = Some p)"
  by (simp add: isReferenceObject_def)

section \<open>\<^verbatim>\<open>JSON.stringify\<close> prints JSON literals\<close>

lemma hex_value_hex_digit: "k < 16 \<Longrightarrow> hex_value (hex_digit k) = Some k"
  by (auto simp: hex_value_def hex_digit_def Let_def)

lemma json_unescape_plain:
  "c \<noteq> CHR 0x5C \<Longrightarrow> c \<noteq> CHR 0x22 \<Longrightarrow> \<not> (of_char c :: nat) < 32 \<Longrightarrow>
   json_unescape (c # rest) = map_option ((#) c) (json_unescape rest)"
  by simp

lemma json_unescape_simple:
  "simple_escape e = Some x \<Longrightarrow> e \<noteq> CHR ''u'' \<Longrightarrow>
   json_unescape (CHR 0x5C # e # rest) = map_option ((#) x) (json_unescape rest)"
  by simp

lemma json_unescape_hex:
  "hex_value h3 = Some hi \<Longrightarrow> hex_value h4 = Some lo \<Longrightarrow>
   json_unescape (CHR 0x5C # CHR ''u'' # CHR ''0'' # CHR ''0'' # h3 # h4 # rest)
     = map_option ((#) (char_of (16 * hi + lo))) (json_unescape rest)"
  by (simp add: hex_value_def)

text \<open>Decoding undoes the escape of a code unit.\<close>

lemma json_unescape_escape:
  "json_unescape (json_escape c @ rest) = map_option ((#) c) (json_unescape rest)"
proof -
  consider (quote) "c = CHR 0x22" | (backslash) "c = CHR 0x5C"
    | (b) "c = CHR 0x08" | (t) "c = CHR 0x09" | (n) "c = CHR 0x0A"
    | (f) "c = CHR 0x0C" | (r) "c = CHR 0x0D"
    | (control) "c \<notin> {CHR 0x22, CHR 0x5C, CHR 0x08, CHR 0x09, CHR 0x0A, CHR 0x0C, CHR 0x0D}"
                "(of_char c :: nat) < 32"
    | (plain) "c \<notin> {CHR 0x22, CHR 0x5C, CHR 0x08, CHR 0x09, CHR 0x0A, CHR 0x0C, CHR 0x0D}"
              "\<not> (of_char c :: nat) < 32"
    by blast
  then show ?thesis
  proof cases
    case quote
    then show ?thesis
      by (simp add: json_escape_def json_unescape_simple simple_escape_def del: json_unescape.simps)
  next
    case backslash
    then show ?thesis
      by (simp add: json_escape_def json_unescape_simple simple_escape_def del: json_unescape.simps)
  next
    case b
    then show ?thesis
      by (simp add: json_escape_def json_unescape_simple simple_escape_def del: json_unescape.simps)
  next
    case t
    then show ?thesis
      by (simp add: json_escape_def json_unescape_simple simple_escape_def del: json_unescape.simps)
  next
    case n
    then show ?thesis
      by (simp add: json_escape_def json_unescape_simple simple_escape_def del: json_unescape.simps)
  next
    case f
    then show ?thesis
      by (simp add: json_escape_def json_unescape_simple simple_escape_def del: json_unescape.simps)
  next
    case r
    then show ?thesis
      by (simp add: json_escape_def json_unescape_simple simple_escape_def del: json_unescape.simps)
  next
    case control
    then have esc: "json_escape c = [CHR 0x5C, CHR ''u'', CHR ''0'', CHR ''0'',
         hex_digit ((of_char c :: nat) div 16), hex_digit ((of_char c :: nat) mod 16)]"
      by (simp add: json_escape_def)
    have hi: "hex_value (hex_digit ((of_char c :: nat) div 16)) = Some ((of_char c :: nat) div 16)"
      using control by (intro hex_value_hex_digit) simp
    have lo: "hex_value (hex_digit ((of_char c :: nat) mod 16)) = Some ((of_char c :: nat) mod 16)"
      by (intro hex_value_hex_digit) simp
    have whole: "char_of (16 * ((of_char c :: nat) div 16) + (of_char c :: nat) mod 16) = c"
      by simp
    have "json_unescape (json_escape c @ rest)
            = map_option ((#) (char_of (16 * ((of_char c :: nat) div 16) + (of_char c :: nat) mod 16)))
                (json_unescape rest)"
      unfolding esc using json_unescape_hex [OF hi lo] by (simp del: json_unescape.simps mult_div_mod_eq)
    then show ?thesis
      by (simp only: whole)
  next
    case plain
    then show ?thesis
      by (simp add: json_escape_def json_unescape_plain del: json_unescape.simps)
  qed
qed

lemma json_unescape_body: "json_unescape (concat (map json_escape s)) = Some s"
  by (induction s) (simp_all add: json_unescape_escape del: json_unescape.simps(2))

lemma string_text_quote: "string_text s (json_quote s)"
  by (simp add: string_text_def json_quote_def json_unescape_body butlast_append)

text \<open>The text printed for a value is a JSON literal of that value.\<close>

lemma json_text_stringify: "json_text v (stringify v)"
proof (induction v rule: stringify.induct)
  case 1
  show ?case by (simp add: null_text)
next
  case (2 b)
  show ?case by (cases b) (simp_all add: true_text false_text)
next
  case (3 t)
  show ?case by (simp add: number_text)
next
  case (4 s)
  show ?case by (simp add: quoted_text string_text_quote)
next
  case (5 vs)
  then have "list_all2 json_text vs (map stringify vs)"
    by (simp add: list_all2_map2 list_all2_same)
  from array_text [OF this] show ?case by simp
next
  case (6 kvs)
  have "list_all2 (rel_prod string_text json_text) kvs
          (map (\<lambda>(k, v). (json_quote k, stringify v)) kvs)"
    unfolding list_all2_map2 list_all2_same
    using 6 by (auto simp: string_text_quote)
  from object_text [OF this] show ?case
    by (simp add: comp_def case_prod_unfold)
qed

lemma json_text_members: "list_all2 json_text vs (map stringify vs)"
  by (simp add: list_all2_map2 list_all2_same json_text_stringify)

section \<open>Properties of the engine\<close>

text \<open>
  C8. An object node with no declared properties (the \<^verbatim>\<open>properties\<close> field absent or
  empty) renders as exactly the token \<^verbatim>\<open>object\<close>, never as empty braces.
\<close>

theorem empty_object_renders_object:
  assumes "s_ref schema = None" and "s_enum schema = None"
    and "s_type schema = Some (TypeName ''object'')"
    and "s_properties schema = None \<or> s_properties schema = Some []"
  shows "parseSchema (Suc n) env schema openApi cfg s = Returned ''object'' s"
  using assms by (auto simp: dispatch_def parseObject_def)

theorem empty_object_renders_object_witness:
  "parseSchema (Suc 0) table_env (object_node None []) [] default_config () = Returned ''object'' ()
   \<and> parseSchema (Suc 0) table_env (typed ''object'') [] default_config () = Returned ''object'' ()"
  using empty_object_renders_object [of "object_node None []" 0 table_env "[]" default_config "()"]
    empty_object_renders_object [of "typed ''object''" 0 table_env "[]" default_config "()"]
  by (simp add: object_node_def typed_def)

text \<open>
  C5. A node that declares an enumeration renders as its members, each through
  \<^verbatim>\<open>JSON.stringify\<close>, in declaration order, joined by \<^verbatim>\<open> | \<close>, whatever its
  \<^verbatim>\<open>type\<close> field says; the text printed for each member is a JSON literal of that
  member, as the grammar reads it (a string between quotation marks, with its escapes); the
  empty enumeration renders as the empty string, and \<^verbatim>\<open>{enum: ["a", "b"]}\<close> as
  \<^verbatim>\<open>"a" | "b"\<close>.
\<close>

theorem enum_renders_literals:
  assumes "s_ref schema = None" and "s_enum schema = Some vs"
  shows "parseSchema (Suc n) env schema openApi cfg s =
           Returned (join_with '' | '' (map stringify vs)) s
       \<and> list_all2 json_text vs (map stringify vs)
       \<and> (vs = [] \<longrightarrow> parseSchema (Suc n) env schema openApi cfg s = Returned '''' s)"
  using assms by (simp add: dispatch_def parseEnum_def json_text_members)

theorem enum_renders_literals_witness:
  "parseSchema (Suc 0) table_env (enum_node [JStr ''a'', JStr ''b'']) [] default_config () =
     Returned ([CHR 0x22] @ ''a'' @ [CHR 0x22] @ '' | '' @ [CHR 0x22] @ ''b'' @ [CHR 0x22]) ()
   \<and> json_text (JStr ''a'') ([CHR 0x22] @ ''a'' @ [CHR 0x22])
   \<and> json_text (JStr ''b'') ([CHR 0x22] @ ''b'' @ [CHR 0x22])
   \<and> parseSchema (Suc 0) table_env
        (Schema None (Some []) (Some (TypeName ''string'')) None None None None None None None)
        [] default_config () = Returned '''' ()
   \<and> parseSchema (Suc 0) table_env
        (Schema None (Some [JNum ''1.5'', JStr [CHR 0x22], JNull]) (Some (TypeName ''number''))
           None None None None None None None)
        [] default_config ()
      = Returned (''1.5 | '' @ [CHR 0x22, CHR 0x5C, CHR 0x22, CHR 0x22] @ '' | null'') ()
   \<and> json_text (JStr [CHR 0x22]) [CHR 0x22, CHR 0x5C, CHR 0x22, CHR 0x22]"
proof -
  have plain: "parseSchema (Suc 0) table_env (enum_node [JStr ''a'', JStr ''b'']) [] default_config () =
     Returned ([CHR 0x22] @ ''a'' @ [CHR 0x22] @ '' | '' @ [CHR 0x22] @ ''b'' @ [CHR 0x22]) ()
   \<and> json_text (JStr ''a'') ([CHR 0x22] @ ''a'' @ [CHR 0x22])
   \<and> json_text (JStr ''b'') ([CHR 0x22] @ ''b'' @ [CHR 0x22])"
    using enum_renders_literals [of "enum_node [JStr ''a'', JStr ''b'']" "[JStr ''a'', JStr ''b'']"
        0 table_env "[]" default_config "()"]
    by (simp add: enum_node_def json_quote_def json_escape_def)
  have none: "parseSchema (Suc 0) table_env
        (Schema None (Some []) (Some (TypeName ''string'')) None None None None None None None)
        [] default_config () = Returned '''' ()"
    using enum_renders_literals
      [of "Schema None (Some []) (Some (TypeName ''string'')) None None None None None None None" "[]"
        0 table_env "[]" default_config "()"]
    by simp
  have mixed: "parseSchema (Suc 0) table_env
        (Schema None (Some [JNum ''1.5'', JStr [CHR 0x22], JNull]) (Some (TypeName ''number''))
           None None None None None None None)
        [] default_config ()
      = Returned (''1.5 | '' @ [CHR 0x22, CHR 0x5C, CHR 0x22, CHR 0x22] @ '' | null'') ()
   \<and> json_text (JStr [CHR 0x22]) [CHR 0x22, CHR 0x5C, CHR 0x22, CHR 0x22]"
    using enum_renders_literals
      [of "Schema None (Some [JNum ''1.5'', JStr [CHR 0x22], JNull]) (Some (TypeName ''number''))
             None None None None None None None" "[JNum ''1.5'', JStr [CHR 0x22], JNull]"
        0 table_env "[]" default_config "()"]
    by (simp add: json_quote_def json_escape_def)
  show ?thesis
    using plain none mixed by blast
qed

text \<open>
  C3, as the code has it. For a node that is no reference and has neither
  \<^verbatim>\<open>enum\<close> nor \<^verbatim>\<open>oneOf\<close>, and whose \<^verbatim>\<open>type\<close> is none of the seven recognized
  names: when \<^verbatim>\<open>type\<close> is absent, is not a string, or is the empty string, the result is
  the configured \<^verbatim>\<open>defaultType\<close> (\<^verbatim>\<open>unknown\<close> when none is configured); when
  \<^verbatim>\<open>type\<close> is any other string, the result is that string itself.
\<close>

theorem unrecognized_type_passes_through:
  assumes "s_ref schema = None" and "s_enum schema = None" and "s_oneOf schema = None"
    and "s_type schema \<notin> (\<lambda>t. Some (TypeName t)) `
           {''object'', ''array'', ''string'', ''number'', ''integer'', ''boolean'', ''null''}"
  shows "parseSchema (Suc n) env schema openApi cfg s =
           Returned (case s_type schema of
                       Some (TypeName t) \<Rightarrow> if t = '''' then default_or_unknown cfg else t
                     | _ \<Rightarrow> default_or_unknown cfg) s"
  using assms by (auto simp: dispatch_def split: option.splits tyfield.splits)

theorem unrecognized_type_passes_through_witness:
  "parseSchema (Suc 0) table_env (typed ''file'') [] default_config () = Returned ''file'' ()
   \<and> parseSchema (Suc 0) table_env blank [] default_config () = Returned ''unknown'' ()
   \<and> parseSchema (Suc 0) table_env (typed '''') [] default_config () = Returned ''unknown'' ()
   \<and> parseSchema (Suc 0) table_env
        (Schema None None (Some (TypeNames [''string'', ''null''])) None None None None None None None)
        [] (default_config\<lparr>defaultType := Some ''any''\<rparr>) () = Returned ''any'' ()"
  using unrecognized_type_passes_through [of "typed ''file''" 0 table_env "[]" default_config "()"]
    unrecognized_type_passes_through [of blank 0 table_env "[]" default_config "()"]
    unrecognized_type_passes_through [of "typed ''''" 0 table_env "[]" default_config "()"]
    unrecognized_type_passes_through
      [of "Schema None None (Some (TypeNames [''string'', ''null''])) None None None None None None None"
        0 table_env "[]" "default_config\<lparr>defaultType := Some ''any''\<rparr>" "()"]
  by (simp add: typed_def blank_def default_config_def default_or_unknown_def)

text \<open>With \<^verbatim>\<open>defaultType\<close> \<^verbatim>\<open>unknown\<close>, the node \<^verbatim>\<open>{type: "file"}\<close> renders as
  \<^verbatim>\<open>file\<close>, not as \<^verbatim>\<open>unknown\<close>.\<close>

theorem unrecognized_type_counterexample:
  "default_or_unknown (default_config :: unit config) = ''unknown''
   \<and> parseSchema (Suc 0) table_env (typed ''file'') [] default_config () = Returned ''file'' ()
   \<and> parseSchema (Suc 0) table_env (typed ''file'') [] default_config () \<noteq> Returned ''unknown'' ()"
  by (simp add: typed_def dispatch_def default_config_def default_or_unknown_def)

text \<open>
  C4. The tuple form on \<^verbatim>\<open>{type: "array", items: [{type: "string"}, {type: "number"}]}\<close>:
  the rendered text has a comma between the two elements' lines in addition to the one
  that ends each element.
\<close>

theorem tuple_extra_separator:
  "parseSchema (Suc (Suc 0)) table_env
     (array_node (Some (ItemList [typed ''string'', typed ''number''])))
     [] default_config ()
   = Returned ''[\<newline>string,\<newline>,number,\<newline>\<newline>]'' ()"
  by (simp add: array_node_def typed_def dispatch_def parseArray_def nl_def)

text \<open>
  The wrapping \<^verbatim>\<open>parseArray\<close> gives a single \<^verbatim>\<open>items\<close> schema, the item taken after
  resolution (itself when it is no reference; the resolved node when it is one and
  \<^verbatim>\<open>deep\<close> is set). The tests come in the order of the source: the item's \<^verbatim>\<open>type\<close>
  first (\<^verbatim>\<open>object\<close> gives \<^verbatim>\<open>Array<T>\<close>, \<^verbatim>\<open>array\<close> gives \<^verbatim>\<open>T[]\<close>), and only then its
  \<^verbatim>\<open>oneOf\<close> and \<^verbatim>\<open>enum\<close> fields (\<^verbatim>\<open>(T)[]\<close>); any other item gives \<^verbatim>\<open>T[]\<close>.
  \<^verbatim>\<open>T\<close> is the item's rendered type.
\<close>

lemma parseArray_wrapping_order:
  assumes "s_ref schema = None" and "s_enum schema = None"
    and "s_type schema = Some (TypeName ''array'')"
    and "s_items schema = Some (ItemOne it)"
    and "(s_ref it = None \<and> items = it) \<or>
         (\<exists>p. s_ref it = Some p \<and> deep cfg = Some True \<and> findBy_ref env p openApi = Inr items)"
    and "parseSchema n env items openApi cfg s = Returned ty s'"
  shows "parseSchema (Suc n) env schema openApi cfg s =
           Returned (if s_type items = Some (TypeName ''object'') then ''Array<'' @ ty @ ''>''
                     else if s_type items = Some (TypeName ''array'') then ty @ ''[]''
                     else if s_oneOf items \<noteq> None \<or> s_enum items \<noteq> None then ''('' @ ty @ '')[]''
                     else ty @ ''[]'') s'"
  using assms by (auto simp: dispatch_def parseArray_def)

text \<open>
  C6. An item that carries an \<^verbatim>\<open>enum\<close> is not always wrapped as \<^verbatim>\<open>(T)[]\<close>: when its
  \<^verbatim>\<open>type\<close> is \<^verbatim>\<open>array\<close>, \<^verbatim>\<open>parseSchema\<close> renders it as the union of its members and
  \<^verbatim>\<open>parseArray\<close> then appends \<^verbatim>\<open>[]\<close> without parentheses. The array schema
  \<^verbatim>\<open>{type: "array", items: {type: "array", enum: [["a"], ["b"]]}}\<close> renders as
  \<^verbatim>\<open>["a"] | ["b"][]\<close>, and with the members \<^verbatim>\<open>"a"\<close> and \<^verbatim>\<open>"b"\<close> as \<^verbatim>\<open>"a" | "b"[]\<close>,
  where the suffix binds to the last member only; the same enumerations under the
  \<^verbatim>\<open>type\<close> \<^verbatim>\<open>string\<close> render as \<^verbatim>\<open>("a" | "b")[]\<close>. An object item wraps as
  \<^verbatim>\<open>Array<{...}>\<close>.
\<close>

theorem array_enum_item_not_parenthesized:
  "parseSchema (Suc (Suc 0)) table_env
     (array_node (Some (ItemOne
        (Schema None (Some [JArr [JStr ''a''], JArr [JStr ''b'']]) (Some (TypeName ''array''))
           None None None None None None None))))
     [] default_config ()
   = Returned (''['' @ [CHR 0x22] @ ''a'' @ [CHR 0x22] @ ''] | ['' @ [CHR 0x22] @ ''b'' @ [CHR 0x22] @ ''][]'') ()
   \<and> parseSchema (Suc (Suc 0)) table_env
     (array_node (Some (ItemOne
        (Schema None (Some [JStr ''a'', JStr ''b'']) (Some (TypeName ''array''))
           None None None None None None None))))
     [] default_config ()
   = Returned ([CHR 0x22] @ ''a'' @ [CHR 0x22] @ '' | '' @ [CHR 0x22] @ ''b'' @ [CHR 0x22] @ ''[]'') ()
   \<and> parseSchema (Suc (Suc 0)) table_env
     (array_node (Some (ItemOne
        (Schema None (Some [JStr ''a'', JStr ''b'']) (Some (TypeName ''string''))
           None None None None None None None))))
     [] default_config ()
   = Returned (''('' @ [CHR 0x22] @ ''a'' @ [CHR 0x22] @ '' | '' @ [CHR 0x22] @ ''b'' @ [CHR 0x22] @ '')[]'') ()
   \<and> parseSchema (Suc (Suc (Suc 0))) table_env
     (array_node (Some (ItemOne (object_node None [(''x'', typed ''number'')]))))
     [] default_config ()
   = Returned ''Array<{\<newline> x?: number;\<newline>}>'' ()"
  by (simp add: array_node_def object_node_def typed_def default_config_def dispatch_def
      parseArray_def parseObject_def parseEnum_def property_text_def comment_def comment_end_def
      nl_def json_quote_def json_escape_def)

text \<open>
  C7. The object schema \<^verbatim>\<open>{type: "object", required: ["id"], properties: {id: {type:
  "integer"}, note: {type: "string", deprecated: true}}}\<close> with comment style \<^verbatim>\<open>line\<close>:
  the body holds the line \<^verbatim>\<open>id: number;\<close>, without optional marker, right after the
  comment line \<^verbatim>\<open>// [required]\<close>, and the line \<^verbatim>\<open>note?: string;\<close> right after the
  comment line \<^verbatim>\<open>// [deprecated]\<close>.
\<close>

theorem required_and_deprecated_scenario:
  "parseSchema (Suc (Suc 0)) env
     (object_node (Some [''id''])
        [(''id'', typed ''integer''),
         (''note'', Schema None None (Some (TypeName ''string'')) None None None None None None (Some True))])
     openApi (cfg\<lparr>commentStyle := Some Line\<rparr>) s
   = Returned ''{\<newline> // [required]\<newline> id: number;\<newline> // [deprecated]\<newline> note?: string;\<newline>}'' s"
  by (simp add: object_node_def typed_def dispatch_def parseObject_def property_text_def comment_def
      add_def comment_end_def transformeText_def nl_def)

theorem required_and_deprecated_scenario_witness:
  "split_on nl (case parseSchema (Suc (Suc 0)) table_env
     (object_node (Some [''id''])
        [(''id'', typed ''integer''),
         (''note'', Schema None None (Some (TypeName ''string'')) None None None None None None (Some True))])
     [] (default_config\<lparr>commentStyle := Some Line\<rparr>) () of Returned body u \<Rightarrow> body | _ \<Rightarrow> [])
   = [''{'', '' // [required]'', '' id: number;'', '' // [deprecated]'', '' note?: string;'', ''}'']"
  using required_and_deprecated_scenario [of table_env "[]" default_config "()"]
  by (simp add: nl_def)

section \<open>Properties of the declaration formatter\<close>

lemma after_first_None: "\<not> sublist pat s \<Longrightarrow> after_first pat s = None"
  by (induction s) (auto simp: sublist_Cons_right)

text \<open>
  C2, as the code has it. When the engine returns a type expression, the printer returns
  a text, and that text does not contain \<^verbatim>\<open>type Ts = \<close>, then \<^verbatim>\<open>convertToType\<close>
  resolves to the empty string; it does not fail.
\<close>

theorem unmatched_output_gives_empty:
  assumes "parseSchema n env node openApi cfg s = Returned tsStr s'"
    and "format env (''type Ts = '' @ tsStr) = Inr out"
    and "\<not> sublist ''type Ts = '' out"
  shows "convertToType n env (Some node) openApi cfg s = Some (Inr '''', s')"
  using assms by (simp add: convertToType_def after_first_None trim_def)

theorem unmatched_output_gives_empty_witness:
  "convertToType (Suc 0) mute_env (Some (typed ''number'')) [] default_config () = Some (Inr '''', ())"
  using unmatched_output_gives_empty [of "Suc 0" mute_env "typed ''number''" "[]" default_config "()"
      "''number''" "()" "''interface Ts {}''"]
  by (simp add: mute_env_def table_env_def typed_def dispatch_def sublist_Cons_right)

text \<open>The printer answers \<^verbatim>\<open>interface Ts {}\<close>, which does not hold the pattern, and the
  promise resolves (\<open>Inr\<close>) to the empty string.\<close>

theorem unmatched_output_counterexample:
  "format mute_env (''type Ts = '' @ ''string'') = Inr ''interface Ts {}''
   \<and> \<not> sublist ''type Ts = '' ''interface Ts {}''
   \<and> convertToType (Suc 0) mute_env (Some (typed ''string'')) [] default_config () = Some (Inr '''', ())"
  by (simp add: mute_env_def table_env_def typed_def dispatch_def sublist_Cons_right
      convertToType_def trim_def)

section \<open>What the callbacks preserve, the engine preserves\<close>

text \<open>
  The engine acts on the state only through \<^verbatim>\<open>on$Ref\<close>. A property of the state that
  every call of the callback preserves therefore holds when \<^verbatim>\<open>parseSchema\<close> returns or
  throws, and when the synchronous part of \<^verbatim>\<open>convertToType\<close> ends.
\<close>

lemma ends_in_simps [simp]:
  "ends_in I Diverged" "ends_in I (Threw e s) = I s" "ends_in I (Returned a s) = I s"
  by (simp_all add: ends_in_def final_state_def)

lemma ends_in_then:
  assumes "ends_in I out"
    and "\<And>a s. out = Returned a s \<Longrightarrow> I s \<Longrightarrow> ends_in I (k a s)"
  shows "ends_in I (case out of Diverged \<Rightarrow> Diverged | Threw e s \<Rightarrow> Threw e s | Returned a s \<Rightarrow> k a s)"
  using assms by (cases out) simp_all

lemma ends_in_map [simp]:
  "ends_in I (case out of Diverged \<Rightarrow> Diverged | Threw e s \<Rightarrow> Threw e s
              | Returned a s \<Rightarrow> Returned (f a) s) = ends_in I out"
  by (cases out) simp_all

lemma parse_each_inv:
  assumes "\<And>item s. I s \<Longrightarrow> ends_in I (rec item s)"
  shows "I s \<Longrightarrow> ends_in I (parse_each rec its s)"
proof (induction its arbitrary: s)
  case Nil
  then show ?case by simp
next
  case (Cons item rest)
  show ?case
    unfolding parse_each.simps
  proof (rule ends_in_then)
    show "ends_in I (rec item s)" using assms Cons.prems .
  next
    fix ty s1
    assume "I s1"
    then have "ends_in I (parse_each rec rest s1)" by (rule Cons.IH)
    then show "ends_in I (case parse_each rec rest s1 of
                 Diverged \<Rightarrow> Diverged
               | Threw e s'' \<Rightarrow> Threw e s''
               | Returned tys s'' \<Rightarrow> Returned (ty # tys) s'')"
      by (rule ends_in_then) simp
  qed
qed

lemma parseObject_loop_inv:
  assumes "\<And>item s. I s \<Longrightarrow> ends_in I (rec item s)"
  shows "I s \<Longrightarrow> ends_in I (parseObject_loop rec env openApi cfg required props lines s)"
proof (induction props arbitrary: s lines)
  case Nil
  then show ?case by simp
next
  case (Cons kv rest)
  obtain key valueOrigin where kv: "kv = (key, valueOrigin)" by (cases kv)
  have step: "ends_in I (case rec valueOrigin s of
                 Diverged \<Rightarrow> Diverged
               | Threw e s' \<Rightarrow> Threw e s'
               | Returned ty s' \<Rightarrow> parseObject_loop rec env openApi cfg required rest (f ty) s')" for f
  proof (rule ends_in_then)
    show "ends_in I (rec valueOrigin s)" using assms Cons.prems .
  next
    fix ty s1
    assume "I s1"
    then show "ends_in I (parseObject_loop rec env openApi cfg required rest (f ty) s1)"
      by (rule Cons.IH)
  qed
  show ?case
    unfolding kv parseObject_loop.simps
    using step Cons.prems by (simp split: sum.splits option.splits)
qed

lemma parseObject_inv:
  assumes "\<And>item s. I s \<Longrightarrow> ends_in I (rec item s)"
  shows "I s \<Longrightarrow> ends_in I (parseObject rec env schema openApi cfg s)"
  unfolding parseObject_def Let_def
  by (rule ends_in_then) (simp_all add: parseObject_loop_inv [OF assms])

lemma parseArray_inv:
  assumes "\<And>item s. I s \<Longrightarrow> ends_in I (rec item s)"
    and "\<And>node s s'. I s \<Longrightarrow> notify cfg node s = Some s' \<Longrightarrow> I s'"
    and "I s"
  shows "ends_in I (parseArray rec env schema openApi cfg s)"
  unfolding parseArray_def Let_def
  using assms(2) [OF assms(3)] assms(3)
  by (simp add: parse_each_inv [OF assms(1)] assms(1) split: option.splits items.splits sum.splits)

lemma dispatch_inv:
  assumes "\<And>item s. I s \<Longrightarrow> ends_in I (rec item s)"
    and "\<And>node s s'. I s \<Longrightarrow> notify cfg node s = Some s' \<Longrightarrow> I s'"
    and "I s"
  shows "ends_in I (dispatch rec env schema openApi cfg s)"
proof -
  have obj: "ends_in I (parseObject rec env schema openApi cfg s)"
    using assms(1) assms(3) by (rule parseObject_inv [where I = I])
  have arr: "ends_in I (parseArray rec env schema openApi cfg s)"
    using assms by (rule parseArray_inv [where I = I])
  show ?thesis
    unfolding dispatch_def
    using assms(3) obj arr
    by (simp add: parse_each_inv [OF assms(1)] split: option.splits tyfield.splits)
qed

lemma parseSchema_inv:
  assumes "\<And>node s s'. I s \<Longrightarrow> notify cfg node s = Some s' \<Longrightarrow> I s'"
  shows "I s \<Longrightarrow> ends_in I (parseSchema n env node openApi cfg s)"
proof (induction n arbitrary: node s)
  case 0
  then show ?case by simp
next
  case (Suc n)
  have rec: "\<And>item s. I s \<Longrightarrow> ends_in I (parseSchema n env item openApi cfg s)"
    using Suc.IH .
  have disp: "I s0 \<Longrightarrow> ends_in I (dispatch (\<lambda>item. parseSchema n env item openApi cfg) env sch openApi cfg s0)"
    for s0 sch
    using rec assms by (rule dispatch_inv [where I = I])
  show ?case
    using disp Suc.prems assms [OF Suc.prems]
    by (simp split: option.splits sum.splits)
qed

lemma convertToType_inv:
  assumes "\<And>node s s'. I s \<Longrightarrow> notify cfg node s = Some s' \<Longrightarrow> I s'"
    and "I s" and "convertToType n env schemaOrigin openApi cfg s = Some (r, s')"
  shows "I s'"
proof (cases schemaOrigin)
  case None
  then show ?thesis using assms(2,3) by (simp add: convertToType_def)
next
  case (Some node)
  have "ends_in I (parseSchema n env node openApi cfg s)"
    using assms(1) assms(2) by (rule parseSchema_inv [where I = I])
  then show ?thesis
    using assms(3) Some
    by (cases "parseSchema n env node openApi cfg s")
       (auto simp: convertToType_def Let_def split: sum.splits)
qed

section \<open>The result does not depend on the state\<close>

text \<open>
  Under a callback that always returns, whether the engine returns, throws or recurses
  without end, and the type expression or error it produces, are the same from every
  state.
\<close>

lemma alike_simps [simp]:
  "alike Diverged o2 = (o2 = Diverged)"
  "alike (Threw e s) o2 = (\<exists>s'. o2 = Threw e s')"
  "alike (Returned a s) o2 = (\<exists>s'. o2 = Returned a s')"
  by (simp_all add: alike_def)

lemma alike_then:
  assumes "alike o1 o2"
    and "\<And>a s1 s2. o1 = Returned a s1 \<Longrightarrow> o2 = Returned a s2 \<Longrightarrow> alike (k a s1) (k a s2)"
  shows "alike (case o1 of Diverged \<Rightarrow> Diverged | Threw e s \<Rightarrow> Threw e s | Returned a s \<Rightarrow> k a s)
               (case o2 of Diverged \<Rightarrow> Diverged | Threw e s \<Rightarrow> Threw e s | Returned a s \<Rightarrow> k a s)"
  using assms by (cases o1) auto

lemma alike_map [simp]:
  assumes "alike o1 o2"
  shows "alike (case o1 of Diverged \<Rightarrow> Diverged | Threw e s \<Rightarrow> Threw e s
                | Returned a s \<Rightarrow> Returned (f a) s)
               (case o2 of Diverged \<Rightarrow> Diverged | Threw e s \<Rightarrow> Threw e s
                | Returned a s \<Rightarrow> Returned (f a) s)"
  using assms by (cases o1) auto

lemma parse_each_alike:
  assumes "\<And>item s1 s2. alike (rec item s1) (rec item s2)"
  shows "alike (parse_each rec its s1) (parse_each rec its s2)"
proof (induction its arbitrary: s1 s2)
  case Nil
  show ?case by simp
next
  case (Cons item rest)
  show ?case
    unfolding parse_each.simps
  proof (rule alike_then)
    show "alike (rec item s1) (rec item s2)" by (rule assms)
  next
    fix ty t1 t2
    show "alike (case parse_each rec rest t1 of
                   Diverged \<Rightarrow> Diverged
                 | Threw e s'' \<Rightarrow> Threw e s''
                 | Returned tys s'' \<Rightarrow> Returned (ty # tys) s'')
                (case parse_each rec rest t2 of
                   Diverged \<Rightarrow> Diverged
                 | Threw e s'' \<Rightarrow> Threw e s''
                 | Returned tys s'' \<Rightarrow> Returned (ty # tys) s'')"
      by (rule alike_map) (rule Cons.IH)
  qed
qed

lemma parseObject_loop_alike:
  assumes "\<And>item s1 s2. alike (rec item s1) (rec item s2)"
  shows "alike (parseObject_loop rec env openApi cfg required props lines s1)
               (parseObject_loop rec env openApi cfg required props lines s2)"
proof (induction props arbitrary: lines s1 s2)
  case Nil
  show ?case by simp
next
  case (Cons kv rest)
  obtain key valueOrigin where kv: "kv = (key, valueOrigin)" by (cases kv)
  have step: "alike (case rec valueOrigin s1 of
                 Diverged \<Rightarrow> Diverged
               | Threw e s' \<Rightarrow> Threw e s'
               | Returned ty s' \<Rightarrow> parseObject_loop rec env openApi cfg required rest (f ty) s')
               (case rec valueOrigin s2 of
                 Diverged \<Rightarrow> Diverged
               | Threw e s' \<Rightarrow> Threw e s'
               | Returned ty s' \<Rightarrow> parseObject_loop rec env openApi cfg required rest (f ty) s')" for f
    by (rule alike_then) (simp_all add: assms Cons.IH)
  show ?case
    unfolding kv parseObject_loop.simps
    using step by (simp split: sum.splits option.splits)
qed

lemma parseObject_alike:
  assumes "\<And>item s1 s2. alike (rec item s1) (rec item s2)"
  shows "alike (parseObject rec env schema openApi cfg s1) (parseObject rec env schema openApi cfg s2)"
  unfolding parseObject_def Let_def
  by (rule alike_map) (rule parseObject_loop_alike [where rec = rec, OF assms])

lemma parseArray_alike:
  assumes "\<And>item s1 s2. alike (rec item s1) (rec item s2)"
    and "\<And>node s. notify cfg node s \<noteq> None"
  shows "alike (parseArray rec env schema openApi cfg s1) (parseArray rec env schema openApi cfg s2)"
  unfolding parseArray_def Let_def
  by (auto simp: parse_each_alike [where rec = rec, OF assms(1)] assms
      split: option.splits items.splits sum.splits)

lemma dispatch_alike:
  assumes "\<And>item s1 s2. alike (rec item s1) (rec item s2)"
    and "\<And>node s. notify cfg node s \<noteq> None"
  shows "alike (dispatch rec env schema openApi cfg s1) (dispatch rec env schema openApi cfg s2)"
  unfolding dispatch_def
  by (simp add: parse_each_alike [where rec = rec, OF assms(1)]
      parseObject_alike [where rec = rec, OF assms(1)]
      parseArray_alike [where rec = rec, OF assms]
      split: option.splits tyfield.splits)

lemma parseSchema_alike:
  assumes "\<And>node s. notify cfg node s \<noteq> None"
  shows "alike (parseSchema n env node openApi cfg s1) (parseSchema n env node openApi cfg s2)"
proof (induction n arbitrary: node s1 s2)
  case 0
  show ?case by simp
next
  case (Suc n)
  have disp: "alike (dispatch (\<lambda>item. parseSchema n env item openApi cfg) env sch openApi cfg t1)
                    (dispatch (\<lambda>item. parseSchema n env item openApi cfg) env sch openApi cfg t2)"
    for sch t1 t2
    by (rule dispatch_alike [where rec = "\<lambda>item. parseSchema n env item openApi cfg"])
       (simp_all add: Suc.IH assms)
  show ?case
    using disp by (auto simp: assms split: option.splits sum.splits)
qed

section \<open>A deep expansion that ends never meets its own pointer again\<close>

text \<open>
  With \<^verbatim>\<open>deep\<close> set the engine reads nothing of the configuration's callback but through
  \<^verbatim>\<open>parseSchema\<close>. Take a pointer \<open>p\<close> that resolves to \<open>items\<close> and the least bound at
  which the expansion of \<open>items\<close> ends. Below that bound a reference object carrying
  \<open>p\<close> cannot be parsed to an end, so up to that bound the recording observer and the one
  that never returns on \<open>p\<close> give the same outcomes; the latter records no such object.
\<close>

lemma property_text_on_Ref [simp]:
  "property_text (cfg\<lparr>on_Ref := f\<rparr>) val key is_required ty = property_text cfg val key is_required ty"
  by (simp add: property_text_def)

lemma parseObject_loop_on_Ref [simp]:
  "parseObject_loop rec env openApi (cfg\<lparr>on_Ref := f\<rparr>) required props lines s
     = parseObject_loop rec env openApi cfg required props lines s"
proof (induction props arbitrary: lines s)
  case Nil
  show ?case by simp
next
  case (Cons kv rest)
  obtain key valueOrigin where kv: "kv = (key, valueOrigin)" by (cases kv)
  show ?case
    unfolding kv by (simp add: Cons.IH split: sum.splits outcome.splits)
qed

lemma default_or_unknown_on_Ref [simp]:
  "default_or_unknown (cfg\<lparr>on_Ref := f\<rparr>) = default_or_unknown cfg"
  by (simp add: default_or_unknown_def)

lemma parseObject_on_Ref [simp]:
  "parseObject rec env node openApi (cfg\<lparr>on_Ref := f\<rparr>) s = parseObject rec env node openApi cfg s"
  by (simp add: parseObject_def)

lemma parseArray_on_Ref:
  "deep cfg = Some True \<Longrightarrow>
   parseArray rec env node openApi (cfg\<lparr>on_Ref := f\<rparr>) s = parseArray rec env node openApi cfg s"
  by (simp add: parseArray_def Let_def split: option.splits items.splits)

lemma dispatch_on_Ref:
  "deep cfg = Some True \<Longrightarrow>
   dispatch rec env node openApi (cfg\<lparr>on_Ref := f\<rparr>) s = dispatch rec env node openApi cfg s"
  by (simp add: dispatch_def parseArray_on_Ref split: option.splits tyfield.splits)

lemma below_least_alike:
  assumes deep: "deep cfg = Some True"
    and target: "findBy_ref env p openApi = Inr items"
    and low: "\<And>k s. k < m0 \<Longrightarrow>
       dispatch (\<lambda>item. parseSchema k env item openApi (cfg\<lparr>on_Ref := Some record_ref\<rparr>))
         env items openApi cfg s = Diverged"
  shows "n \<le> m0 \<Longrightarrow>
         parseSchema n env node openApi (cfg\<lparr>on_Ref := Some (record_other p)\<rparr>) s
           = parseSchema n env node openApi (cfg\<lparr>on_Ref := Some record_ref\<rparr>) s"
proof (induction n arbitrary: node s)
  case 0
  show ?case by simp
next
  case (Suc n)
  let ?R = "cfg\<lparr>on_Ref := Some record_ref\<rparr>"
  let ?R' = "cfg\<lparr>on_Ref := Some (record_other p)\<rparr>"
  have "\<And>item s. parseSchema n env item openApi ?R' s = parseSchema n env item openApi ?R s"
    using Suc.prems by (intro Suc.IH) simp
  then have recs: "(\<lambda>item. parseSchema n env item openApi ?R') = (\<lambda>item. parseSchema n env item openApi ?R)"
    by (intro ext)
  have disp: "dispatch (\<lambda>item. parseSchema n env item openApi ?R') env sch openApi ?R' t
            = dispatch (\<lambda>item. parseSchema n env item openApi ?R) env sch openApi ?R t" for sch t
    unfolding recs by (simp add: dispatch_on_Ref deep)
  have dead: "dispatch (\<lambda>item. parseSchema n env item openApi ?R) env items openApi ?R t = Diverged" for t
    using low [of n t] Suc.prems by (simp add: dispatch_on_Ref deep)
  have told: "notify ?R node s = Some (s @ [node])"
    by (simp add: notify_def record_ref_def)
  have told': "notify ?R' node s = (if s_ref node = Some p then None else Some (s @ [node]))"
    by (simp add: notify_def record_other_def)
  show ?case
  proof (cases "s_ref node")
    case None
    then show ?thesis using disp by simp
  next
    case (Some q)
    show ?thesis
    proof (cases "q = p")
      case True
      then show ?thesis
        using Some dead deep target by (simp add: told told')
    next
      case False
      then show ?thesis
        using Some disp deep by (simp add: told told' split: sum.splits)
    qed
  qed
qed

lemma resolved_item_never_recorded:
  assumes deep: "deep cfg = Some True"
    and target: "findBy_ref env p openApi = Inr items"
    and fin: "final_state (dispatch (\<lambda>item. parseSchema m env item openApi (cfg\<lparr>on_Ref := Some record_ref\<rparr>))
                env items openApi (cfg\<lparr>on_Ref := Some record_ref\<rparr>) seen) = Some seen'"
  shows "\<forall>r \<in> set seen'. s_ref r = Some p \<longrightarrow> r \<in> set seen"
proof -
  let ?R = "cfg\<lparr>on_Ref := Some record_ref\<rparr>"
  let ?R' = "cfg\<lparr>on_Ref := Some (record_other p)\<rparr>"
  let ?D = "\<lambda>k s. dispatch (\<lambda>item. parseSchema k env item openApi ?R) env items openApi cfg s"
  let ?ends = "\<lambda>k. \<exists>s. ?D k s \<noteq> Diverged"
  define m0 where "m0 = (LEAST k. ?ends k)"
  have on: "dispatch rec env items openApi ?R s = dispatch rec env items openApi cfg s" for rec s
    by (simp add: dispatch_on_Ref deep)
  have on': "dispatch rec env items openApi ?R' s = dispatch rec env items openApi cfg s" for rec s
    by (simp add: dispatch_on_Ref deep)
  from fin have here: "?D m seen \<noteq> Diverged"
    by (auto simp: on final_state_def)
  then have "?ends m" by blast
  then have least: "?ends m0" and le: "m0 \<le> m"
    unfolding m0_def by (rule LeastI, rule Least_le)
  have low: "\<And>k s. k < m0 \<Longrightarrow> ?D k s = Diverged"
    unfolding m0_def using not_less_Least by blast
  have always: "\<And>node s. notify ?R node s \<noteq> None"
    by (simp add: notify_def record_ref_def)
  from least obtain s0 where s0: "?D m0 s0 \<noteq> Diverged" by blast
  have "alike (dispatch (\<lambda>item. parseSchema m0 env item openApi ?R) env items openApi ?R s0)
              (dispatch (\<lambda>item. parseSchema m0 env item openApi ?R) env items openApi ?R seen)"
    by (rule dispatch_alike [where rec = "\<lambda>item. parseSchema m0 env item openApi ?R"])
       (simp_all add: parseSchema_alike [OF always] always)
  with s0 have short: "?D m0 seen \<noteq> Diverged"
    by (cases "?D m0 s0") (auto simp: on)
  have raise: "parseSchema m0 env item openApi ?R s \<noteq> Diverged \<Longrightarrow>
       parseSchema m env item openApi ?R s = parseSchema m0 env item openApi ?R s" for item s
    using parseSchema_more [of m0 env item openApi ?R s "m - m0"] le by simp
  have same: "?D m seen = ?D m0 seen"
    by (rule dispatch_mono [where rec = "\<lambda>item. parseSchema m0 env item openApi ?R"])
       (simp_all add: raise short)
  have "\<And>item s. parseSchema m0 env item openApi ?R' s = parseSchema m0 env item openApi ?R s"
    using below_least_alike [OF deep target low, of m0 m0] by simp
  then have recs: "(\<lambda>item. parseSchema m0 env item openApi ?R') = (\<lambda>item. parseSchema m0 env item openApi ?R)"
    by (intro ext)
  let ?I = "\<lambda>s. \<forall>r \<in> set s. s_ref r = Some p \<longrightarrow> r \<in> set seen"
  have keep: "\<And>node s s'. ?I s \<Longrightarrow> notify ?R' node s = Some s' \<Longrightarrow> ?I s'"
    by (auto simp: notify_def record_other_def split: if_splits)
  have rec: "\<And>item s. ?I s \<Longrightarrow> ends_in ?I (parseSchema m0 env item openApi ?R' s)"
    using keep by (rule parseSchema_inv [where I = ?I])
  have "ends_in ?I (dispatch (\<lambda>item. parseSchema m0 env item openApi ?R') env items openApi ?R' seen)"
    by (rule dispatch_inv [where I = ?I and rec = "\<lambda>item. parseSchema m0 env item openApi ?R'"])
       (simp_all add: rec keep)
  then have "ends_in ?I (?D m seen)"
    unfolding recs on' same .
  then show ?thesis
    using fin by (simp add: on ends_in_def)
qed

section \<open>Which references the observer sees\<close>

lemma record_ref_grows:
  "prefix pre seen \<Longrightarrow> notify (cfg\<lparr>on_Ref := Some record_ref\<rparr>) node seen = Some seen' \<Longrightarrow> prefix pre seen'"
  by (auto simp: notify_def record_ref_def)

text \<open>
  C10. Let an array node have a single \<^verbatim>\<open>items\<close> value that is a reference object.
  When \<^verbatim>\<open>deep\<close> is set, \<^verbatim>\<open>parseArray\<close> resolves the reference itself and the observer
  is not called for it: the state after \<^verbatim>\<open>parseArray\<close> is the state after parsing the
  resolved item; and when the resolved item is a schema proper (no reference object), an
  observer that records what it is given holds, after a call that returned or threw, no
  new reference object that carries the item's pointer. When \<^verbatim>\<open>deep\<close> is not set,
  \<^verbatim>\<open>parseArray\<close> calls the observer on the reference and that is all it does to the state.
  A reference that \<^verbatim>\<open>parseSchema\<close> itself meets is always reported: the record after the
  call starts with the former record followed by that reference.
\<close>

theorem array_item_reference_not_observed:
  assumes "s_items schema = Some (ItemOne it)" and "s_ref it = Some p"
  shows "(deep cfg = Some True \<and> findBy_ref env p openApi = Inr items \<longrightarrow>
            final_state (parseArray (\<lambda>item. parseSchema n env item openApi cfg) env schema openApi cfg s)
              = final_state (parseSchema n env items openApi cfg s))
       \<and> (deep cfg = Some True \<and> findBy_ref env p openApi = Inr items \<and> s_ref items = None \<and>
            final_state (parseArray
                (\<lambda>item. parseSchema n env item openApi (cfg\<lparr>on_Ref := Some record_ref\<rparr>))
                env schema openApi (cfg\<lparr>on_Ref := Some record_ref\<rparr>) seen) = Some seen' \<longrightarrow>
            (\<forall>r \<in> set seen'. s_ref r = Some p \<longrightarrow> r \<in> set seen))
       \<and> (deep cfg \<noteq> Some True \<longrightarrow>
            final_state (parseArray rec env schema openApi cfg s) = notify cfg it s)
       \<and> (final_state (parseSchema (Suc n) env it openApi (cfg\<lparr>on_Ref := Some record_ref\<rparr>) seen)
              = Some seen' \<longrightarrow> prefix (seen @ [it]) seen')"
proof (intro conjI impI)
  assume "deep cfg = Some True \<and> findBy_ref env p openApi = Inr items"
  then show "final_state (parseArray (\<lambda>item. parseSchema n env item openApi cfg) env schema openApi cfg s)
              = final_state (parseSchema n env items openApi cfg s)"
    using assms
    by (cases "parseSchema n env items openApi cfg s") (simp_all add: parseArray_def final_state_def)
next
  let ?R = "cfg\<lparr>on_Ref := Some record_ref\<rparr>"
  assume a: "deep cfg = Some True \<and> findBy_ref env p openApi = Inr items \<and> s_ref items = None \<and>
            final_state (parseArray (\<lambda>item. parseSchema n env item openApi ?R)
                env schema openApi ?R seen) = Some seen'"
  then have deep: "deep cfg = Some True" and target: "findBy_ref env p openApi = Inr items"
    and plain: "s_ref items = None"
    and arr: "final_state (parseArray (\<lambda>item. parseSchema n env item openApi ?R)
                env schema openApi ?R seen) = Some seen'"
    by blast+
  from arr have fin: "final_state (parseSchema n env items openApi ?R seen) = Some seen'"
    using assms deep target
    by (cases "parseSchema n env items openApi ?R seen") (simp_all add: parseArray_def final_state_def)
  then obtain m where n: "n = Suc m"
    by (cases n) (auto simp: final_state_def)
  from fin plain have
    "final_state (dispatch (\<lambda>item. parseSchema m env item openApi ?R) env items openApi ?R seen) = Some seen'"
    unfolding n by simp
  with deep target show "\<forall>r \<in> set seen'. s_ref r = Some p \<longrightarrow> r \<in> set seen"
    by (rule resolved_item_never_recorded)
next
  assume "deep cfg \<noteq> Some True"
  then show "final_state (parseArray rec env schema openApi cfg s) = notify cfg it s"
    using assms by (simp add: parseArray_def final_state_def split: option.splits)
next
  let ?cfg = "cfg\<lparr>on_Ref := Some record_ref\<rparr>"
  let ?I = "prefix (seen @ [it])"
  assume fin: "final_state (parseSchema (Suc n) env it openApi ?cfg seen) = Some seen'"
  have note1: "notify ?cfg it seen = Some (seen @ [it])"
    by (simp add: notify_def record_ref_def)
  have keep: "\<And>node s s'. ?I s \<Longrightarrow> notify ?cfg node s = Some s' \<Longrightarrow> ?I s'"
    by (rule record_ref_grows)
  have rec: "\<And>item s. ?I s \<Longrightarrow> ends_in ?I (parseSchema n env item openApi ?cfg s)"
    using keep by (rule parseSchema_inv [where I = ?I])
  have "ends_in ?I (dispatch (\<lambda>item. parseSchema n env item openApi ?cfg) env sch openApi ?cfg (seen @ [it]))" for sch
    by (rule dispatch_inv [where I = ?I and rec = "\<lambda>item. parseSchema n env item openApi ?cfg"])
       (simp_all add: rec keep)
  then have "ends_in ?I (parseSchema (Suc n) env it openApi ?cfg seen)"
    using assms(2) note1 by (simp split: sum.splits)
  then show "prefix (seen @ [it]) seen'"
    using fin by (simp add: ends_in_def)
qed

theorem array_item_reference_not_observed_witness:
  "final_state (parseArray
       (\<lambda>item. parseSchema (Suc (Suc (Suc 0))) table_env item pet_doc
                  (default_config\<lparr>on_Ref := Some record_ref\<rparr>))
       table_env (array_node (Some (ItemOne (ref_node ''#/components/schemas/Pet''))))
       pet_doc (default_config\<lparr>on_Ref := Some record_ref\<rparr>) [])
     = Some [ref_node ''#/components/schemas/Owner'']
   \<and> final_state (parseArray
       (\<lambda>item. parseSchema (Suc (Suc (Suc 0))) table_env item pet_doc
                  (default_config\<lparr>deep := Some False, on_Ref := Some record_ref\<rparr>))
       table_env (array_node (Some (ItemOne (ref_node ''#/components/schemas/Pet''))))
       pet_doc (default_config\<lparr>deep := Some False, on_Ref := Some record_ref\<rparr>) [])
     = Some [ref_node ''#/components/schemas/Pet'']
   \<and> final_state (parseSchema (Suc (Suc (Suc (Suc 0)))) table_env (ref_node ''#/components/schemas/Pet'')
       pet_doc (default_config\<lparr>on_Ref := Some record_ref\<rparr>) [])
     = Some [ref_node ''#/components/schemas/Pet'', ref_node ''#/components/schemas/Owner'']"
proof -
  let ?pet = "ref_node ''#/components/schemas/Pet''"
  let ?arr = "array_node (Some (ItemOne ?pet))"
  let ?obj = "object_node None [(''owner'', ref_node ''#/components/schemas/Owner'')]"
  let ?deep = "default_config\<lparr>on_Ref := Some record_ref\<rparr> :: schema list config"
  let ?flat = "default_config\<lparr>deep := Some False, on_Ref := Some record_ref\<rparr> :: schema list config"
  have arr: "s_items ?arr = Some (ItemOne ?pet)" by (simp add: array_node_def)
  have ptr: "s_ref ?pet = Some ''#/components/schemas/Pet''" by (simp add: ref_node_def)
  have target: "findBy_ref table_env ''#/components/schemas/Pet'' pet_doc = Inr ?obj"
    by (simp add: table_env_def pet_doc_def)
  have on: "deep ?deep = Some True" and off: "deep ?flat \<noteq> Some True"
    by (simp_all add: default_config_def)
  have item: "final_state (parseSchema (Suc (Suc (Suc 0))) table_env ?obj pet_doc ?deep [])
                = Some [ref_node ''#/components/schemas/Owner'']"
    by (simp add: object_node_def ref_node_def typed_def pet_doc_def table_env_def default_config_def
        dispatch_def parseObject_def final_state_def notify_def record_ref_def)
  have told: "notify ?flat ?pet [] = Some [?pet]"
    by (simp add: notify_def record_ref_def)
  have whole: "final_state (parseSchema (Suc (Suc (Suc (Suc 0)))) table_env ?pet pet_doc ?deep [])
                = Some [?pet, ref_node ''#/components/schemas/Owner'']"
    by (simp add: object_node_def ref_node_def typed_def pet_doc_def table_env_def default_config_def
        dispatch_def parseObject_def final_state_def notify_def record_ref_def)
  from array_item_reference_not_observed [OF arr ptr, where cfg = ?deep and env = table_env
      and openApi = pet_doc and items = ?obj and n = "Suc (Suc (Suc 0))" and s = "[]"]
  have "final_state (parseArray (\<lambda>item. parseSchema (Suc (Suc (Suc 0))) table_env item pet_doc ?deep)
          table_env ?arr pet_doc ?deep [])
        = final_state (parseSchema (Suc (Suc (Suc 0))) table_env ?obj pet_doc ?deep [])"
    using on target by blast
  then have first: "final_state (parseArray (\<lambda>item. parseSchema (Suc (Suc (Suc 0))) table_env item pet_doc ?deep)
          table_env ?arr pet_doc ?deep []) = Some [ref_node ''#/components/schemas/Owner'']"
    unfolding item .
  from array_item_reference_not_observed [OF arr ptr, where cfg = ?flat and env = table_env
      and openApi = pet_doc and s = "[]"
      and rec = "\<lambda>item. parseSchema (Suc (Suc (Suc 0))) table_env item pet_doc ?flat"]
  have "final_state (parseArray (\<lambda>item. parseSchema (Suc (Suc (Suc 0))) table_env item pet_doc ?flat)
          table_env ?arr pet_doc ?flat []) = notify ?flat ?pet []"
    using off by blast
  then have second: "final_state (parseArray (\<lambda>item. parseSchema (Suc (Suc (Suc 0))) table_env item pet_doc ?flat)
          table_env ?arr pet_doc ?flat []) = Some [?pet]"
    unfolding told .
  from first second whole show ?thesis by blast
qed

section \<open>The memo and the caller's callback\<close>

lemma sink_ok_on_RefTsStr:
  "sink_ok st \<Longrightarrow> memo st name = Some tsStr \<Longrightarrow> sink_ok (on_RefTsStr name tsStr st)"
  by (simp add: sink_ok_def on_RefTsStr_def)

lemma sink_ok_pending [simp]: "sink_ok (st\<lparr>pending := ps\<rparr>) = sink_ok st"
  by (simp add: sink_ok_def)

lemma collector_on_Ref_inv:
  assumes "\<And>node nm st r st'. sink_ok st \<Longrightarrow> rec node nm st = Some (r, st') \<Longrightarrow> sink_ok st'"
    and "sink_ok st"
    and "collector_on_Ref rec env openApi options refObject st = Some st'"
  shows "sink_ok st'"
  using assms(2,3) assms(1) [OF assms(2)]
  by (auto simp: collector_on_Ref_def Let_def sink_ok_on_RefTsStr
           split: if_splits option.splits sum.splits)

lemma jsonSchema2TsStr_inv:
  "sink_ok st \<Longrightarrow> jsonSchema2TsStr n env schema name openApi options st = Some (r, st') \<Longrightarrow> sink_ok st'"
proof (induction n arbitrary: schema name st r st')
  case 0
  then show ?case by simp
next
  case (Suc n)
  let ?cfg = "\<lparr>deep = deep_opt options, defaultType = Some ''unknown'',
              commentStyle = Some Docment, preText = Some '''',
              on_Ref = Some (collector_on_Ref
                               (\<lambda>node nm. jsonSchema2TsStr n env (Some node) nm openApi options)
                               env openApi options)\<rparr>"
  have keep: "\<And>node s s'. sink_ok s \<Longrightarrow> notify ?cfg node s = Some s' \<Longrightarrow> sink_ok s'"
  proof -
    fix node s s'
    assume ok: "sink_ok s" and n: "notify ?cfg node s = Some s'"
    from n have "collector_on_Ref (\<lambda>node nm. jsonSchema2TsStr n env (Some node) nm openApi options)
                   env openApi options node s = Some s'"
      by (simp add: notify_def)
    with ok show "sink_ok s'"
      using Suc.IH by (rule collector_on_Ref_inv [rotated])
  qed
  from Suc.prems(2) obtain r0 where
    conv: "convertToType n env schema openApi ?cfg st = Some (r0, st')"
    by (auto split: option.splits sum.splits prod.splits simp: Let_def)
  show ?case
    using keep Suc.prems(1) conv by (rule convertToType_inv [where I = sink_ok])
qed

lemma resume_inv: "sink_ok st \<Longrightarrow> sink_ok (resume task st)"
  by (simp add: resume_def sink_ok_def on_RefTsStr_def split: sum.splits)

lemma run_inv: "sink_ok st \<Longrightarrow> sink_ok (run sched st)"
  by (induction sched arbitrary: st) (simp_all add: resume_inv)

text \<open>
  C9. Whenever \<^verbatim>\<open>on$RefTsStr\<close> is called with a name and a text, the memo maps that name
  to that text at that moment: this holds for every call made during the synchronous part
  of \<^verbatim>\<open>jsonSchema2TsStr\<close> and for every call made when suspended invocations are
  resumed, in any order. And a reference whose name is in the memo is answered with the
  cached text and nothing else: no nested \<^verbatim>\<open>jsonSchema2TsStr\<close> call is made (\<open>rec\<close> is
  arbitrary), the memo is unchanged and nothing is left pending. The runs covered include
  those on schemas that reference each other: without \<^verbatim>\<open>deep\<close> the synchronous part
  returns there too, the nesting being cut where the bound is reached, and the invocations
  resumed afterwards store and report their declarations. Last, a single resumption keeps
  the property from whatever state it starts in, so that the two places that call
  \<^verbatim>\<open>on$RefTsStr\<close>, the answer from the memo and the resumption, are each covered on their
  own.
\<close>

theorem sink_sees_memo:
  "(sink_ok st \<and> jsonSchema2TsStr n env schema name openApi options st = Some (r, st')
      \<longrightarrow> sink_ok (run sched st'))
   \<and> (has_on_RefTsStr options \<and> s_ref refObject = Some p \<and> memo st (get_refName env p) = Some cached
      \<longrightarrow> collector_on_Ref rec env openApi options refObject st
            = Some (on_RefTsStr (get_refName env p) cached st))
   \<and> (sink_ok st \<longrightarrow> sink_ok (resume task st))"
  by (auto simp: collector_on_Ref_def intro: run_inv jsonSchema2TsStr_inv resume_inv)

theorem sink_sees_memo_witness:
  "jsonSchema2TsStr (Suc (Suc (Suc (Suc 0)))) table_env
       (Some (object_node None [(''b'', ref_node ''#/components/schemas/B''),
                           (''again'', ref_node ''#/components/schemas/B'')])) ''A'' twice_doc shallow_options fresh
     = Some (Inr ''interface A {\<newline> b?: B;\<newline> again?: B;\<newline>}'',
             fresh\<lparr>pending := [(''B'', Inr ''interface B {\<newline> x?: string;\<newline>}''),
                                (''B'', Inr ''interface B {\<newline> x?: string;\<newline>}'')]\<rparr>)
   \<and> sink_ok (run [1, 0]
        (fresh\<lparr>pending := [(''B'', Inr ''interface B {\<newline> x?: string;\<newline>}''),
                                (''B'', Inr ''interface B {\<newline> x?: string;\<newline>}'')]\<rparr>))
   \<and> map (\<lambda>(name, tsStr, m). (name, tsStr, m name)) (calls (run [1, 0]
        (fresh\<lparr>pending := [(''B'', Inr ''interface B {\<newline> x?: string;\<newline>}''),
                                (''B'', Inr ''interface B {\<newline> x?: string;\<newline>}'')]\<rparr>)))
       = [(''B'', ''interface B {\<newline> x?: string;\<newline>}'', Some ''interface B {\<newline> x?: string;\<newline>}''),
          (''B'', ''interface B {\<newline> x?: string;\<newline>}'', Some ''interface B {\<newline> x?: string;\<newline>}'')]
   \<and> collector_on_Ref (\<lambda>node nm st. None) table_env twice_doc shallow_options
         (ref_node ''#/components/schemas/B'') (fresh\<lparr>memo := [''B'' \<mapsto> ''interface B {}'']\<rparr>)
       = Some (fresh\<lparr>memo := [''B'' \<mapsto> ''interface B {}''],
                      calls := [(''B'', ''interface B {}'', [''B'' \<mapsto> ''interface B {}''])]\<rparr>)
   \<and> jsonSchema2TsStr (Suc (Suc (Suc (Suc (Suc 0))))) table_env (Some schema_A) ''A'' cyclic_doc
         shallow_options fresh
     = Some (Inr ''interface A {\<newline> b?: B;\<newline>}'',
             fresh\<lparr>pending := [(''A'', Inr ''interface A {\<newline> b?: B;\<newline>}''),
                                (''B'', Inr ''interface B {\<newline> a?: A;\<newline>}'')]\<rparr>)
   \<and> sink_ok (run [0, 0]
        (fresh\<lparr>pending := [(''A'', Inr ''interface A {\<newline> b?: B;\<newline>}''),
                                (''B'', Inr ''interface B {\<newline> a?: A;\<newline>}'')]\<rparr>))
   \<and> map (\<lambda>(name, tsStr, m). (name, tsStr, m name)) (calls (run [0, 0]
        (fresh\<lparr>pending := [(''A'', Inr ''interface A {\<newline> b?: B;\<newline>}''),
                                (''B'', Inr ''interface B {\<newline> a?: A;\<newline>}'')]\<rparr>)))
       = [(''A'', ''interface A {\<newline> b?: B;\<newline>}'', Some ''interface A {\<newline> b?: B;\<newline>}''),
          (''B'', ''interface B {\<newline> a?: A;\<newline>}'', Some ''interface B {\<newline> a?: A;\<newline>}'')]
   \<and> sink_ok (resume (''B'', Inr ''interface B {}'') fresh)
   \<and> map (\<lambda>(name, tsStr, m). (name, tsStr, m name)) (calls (resume (''B'', Inr ''interface B {}'') fresh))
       = [(''B'', ''interface B {}'', Some ''interface B {}'')]"
proof -
  let ?A = "object_node None [(''b'', ref_node ''#/components/schemas/B''),
                           (''again'', ref_node ''#/components/schemas/B'')]"
  let ?st = "fresh\<lparr>pending := [(''B'', Inr ''interface B {\<newline> x?: string;\<newline>}''),
                                (''B'', Inr ''interface B {\<newline> x?: string;\<newline>}'')]\<rparr>"
  have ok: "sink_ok fresh" by (simp add: sink_ok_def fresh_def)
  have sync: "jsonSchema2TsStr (Suc (Suc (Suc (Suc 0)))) table_env (Some ?A) ''A'' twice_doc shallow_options fresh
     = Some (Inr ''interface A {\<newline> b?: B;\<newline> again?: B;\<newline>}'', ?st)"
    by (simp add: twice_doc_def shallow_options_def fresh_def object_node_def ref_node_def typed_def
        table_env_def convertToType_def dispatch_def parseObject_def property_text_def comment_def
        comment_end_def notify_def collector_on_Ref_def trim_def is_space_def nl_def Let_def)
  have name: "get_refName table_env ''#/components/schemas/B'' = ''B''"
    by (simp add: table_env_def)
  let ?memo = "[''B'' \<mapsto> ''interface B {}'']"
  note inst = sink_sees_memo [where st = fresh and n = "Suc (Suc (Suc (Suc 0)))" and env = table_env
        and schema = "Some ?A" and name = "''A''" and openApi = twice_doc and options = shallow_options
        and r = "Inr ''interface A {\<newline> b?: B;\<newline> again?: B;\<newline>}''" and st' = ?st
        and sched = "[1, 0]"]
  have later: "sink_ok (run [1, 0] ?st)"
    using inst ok sync by blast
  have seen: "map (\<lambda>(name, tsStr, m). (name, tsStr, m name)) (calls (run [1, 0] ?st))
       = [(''B'', ''interface B {\<newline> x?: string;\<newline>}'', Some ''interface B {\<newline> x?: string;\<newline>}''),
          (''B'', ''interface B {\<newline> x?: string;\<newline>}'', Some ''interface B {\<newline> x?: string;\<newline>}'')]"
    by (simp add: fresh_def resume_def on_RefTsStr_def)
  have hit: "collector_on_Ref (\<lambda>node nm st. None) table_env twice_doc shallow_options
         (ref_node ''#/components/schemas/B'') (fresh\<lparr>memo := ?memo\<rparr>)
       = Some (on_RefTsStr (get_refName table_env ''#/components/schemas/B'') ''interface B {}''
                 (fresh\<lparr>memo := ?memo\<rparr>))"
    using sink_sees_memo [where st = "fresh\<lparr>memo := ?memo\<rparr>" and env = table_env
        and options = shallow_options and refObject = "ref_node ''#/components/schemas/B''"
        and p = "''#/components/schemas/B''" and cached = "''interface B {}''"
        and rec = "\<lambda>node nm st. None" and openApi = twice_doc]
    by (simp add: name shallow_options_def ref_node_def fresh_def)
  have cached: "collector_on_Ref (\<lambda>node nm st. None) table_env twice_doc shallow_options
         (ref_node ''#/components/schemas/B'') (fresh\<lparr>memo := ?memo\<rparr>)
       = Some (fresh\<lparr>memo := ?memo, calls := [(''B'', ''interface B {}'', ?memo)]\<rparr>)"
    unfolding hit name by (simp add: on_RefTsStr_def fresh_def)
  let ?cst = "fresh\<lparr>pending := [(''A'', Inr ''interface A {\<newline> b?: B;\<newline>}''),
                                (''B'', Inr ''interface B {\<newline> a?: A;\<newline>}'')]\<rparr>"
  have cyclic: "jsonSchema2TsStr (Suc (Suc (Suc (Suc (Suc 0))))) table_env (Some schema_A) ''A'' cyclic_doc
         shallow_options fresh
     = Some (Inr ''interface A {\<newline> b?: B;\<newline>}'', ?cst)"
    by (simp add: cyclic_doc_def schema_A_def schema_B_def shallow_options_def fresh_def object_node_def
        ref_node_def table_env_def convertToType_def dispatch_def parseObject_def property_text_def
        comment_def comment_end_def notify_def collector_on_Ref_def trim_def is_space_def nl_def Let_def)
  note inst_cyclic = sink_sees_memo [where st = fresh and n = "Suc (Suc (Suc (Suc (Suc 0))))"
        and env = table_env and schema = "Some schema_A" and name = "''A''" and openApi = cyclic_doc
        and options = shallow_options and r = "Inr ''interface A {\<newline> b?: B;\<newline>}''" and st' = ?cst
        and sched = "[0, 0]"]
  have later_cyclic: "sink_ok (run [0, 0] ?cst)"
    using inst_cyclic ok cyclic by blast
  have seen_cyclic: "map (\<lambda>(name, tsStr, m). (name, tsStr, m name)) (calls (run [0, 0] ?cst))
       = [(''A'', ''interface A {\<newline> b?: B;\<newline>}'', Some ''interface A {\<newline> b?: B;\<newline>}''),
          (''B'', ''interface B {\<newline> a?: A;\<newline>}'', Some ''interface B {\<newline> a?: A;\<newline>}'')]"
    by (simp add: fresh_def resume_def on_RefTsStr_def)
  have one: "sink_ok (resume (''B'', Inr ''interface B {}'') fresh)"
    using sink_sees_memo [where st = fresh and task = "(''B'', Inr ''interface B {}'')",
        THEN conjunct2, THEN conjunct2] ok
    by (rule mp)
  have one_seen: "map (\<lambda>(name, tsStr, m). (name, tsStr, m name))
                    (calls (resume (''B'', Inr ''interface B {}'') fresh))
       = [(''B'', ''interface B {}'', Some ''interface B {}'')]"
    by (simp add: fresh_def resume_def on_RefTsStr_def)
  show ?thesis
    using sync later seen cached cyclic later_cyclic seen_cyclic one one_seen by blast
qed

section \<open>Schemas that reference each other\<close>

lemma parseObject_loop_returned:
  "parseObject_loop rec env openApi cfg required props lines s = Returned ls s' \<Longrightarrow>
   (key, v) \<in> set props \<Longrightarrow> \<exists>s1 ty s2. rec v s1 = Returned ty s2"
proof (induction props arbitrary: lines s)
  case Nil
  then show ?case by simp
next
  case (Cons kv rest)
  obtain k0 v0 where kv: "kv = (k0, v0)" by (cases kv)
  from Cons.prems(1) obtain ty s1 lines1 where
    head: "rec v0 s = Returned ty s1" and
    tail: "parseObject_loop rec env openApi cfg required rest lines1 s1 = Returned ls s'"
    unfolding kv by (auto split: sum.splits outcome.splits)
  show ?case
  proof (cases "(key, v) = (k0, v0)")
    case True
    then show ?thesis using head by auto
  next
    case False
    then have "(key, v) \<in> set rest" using Cons.prems(2) kv by auto
    with tail show ?thesis by (rule Cons.IH)
  qed
qed

lemma dispatch_object_returned:
  assumes "dispatch rec env node openApi cfg s = Returned t s'"
    and "refers_to env openApi node target"
  shows "\<exists>r p s1 ty s2. s_ref r = Some p \<and> findBy_ref env p openApi = Inr target
           \<and> rec r s1 = Returned ty s2"
proof -
  let ?props = "case s_properties node of None \<Rightarrow> [] | Some ps \<Rightarrow> ps"
  from assms(2) have
    "list_ex (\<lambda>(key, r). case s_ref r of
                            None \<Rightarrow> False
                          | Some p \<Rightarrow> findBy_ref env p openApi = Inr target) ?props"
    by (simp add: refers_to_def)
  then obtain key r where
    mem: "(key, r) \<in> set ?props" and
    hit: "case s_ref r of None \<Rightarrow> False | Some p \<Rightarrow> findBy_ref env p openApi = Inr target"
    unfolding list_ex_iff by auto
  from hit obtain p where r: "s_ref r = Some p" "findBy_ref env p openApi = Inr target"
    by (cases "s_ref r") auto
  from assms obtain ls where
    "parseObject_loop rec env openApi cfg (case s_required node of None \<Rightarrow> [] | Some rs \<Rightarrow> rs)
       ?props [''{''] s = Returned ls s'"
    by (auto simp: refers_to_def dispatch_def parseObject_def Let_def split: outcome.splits)
  then have "\<exists>s1 ty s2. rec r s1 = Returned ty s2"
    using mem by (rule parseObject_loop_returned)
  with r show ?thesis by blast
qed

lemma reference_into_cycle_never_returns:
  assumes "refers_to env openApi A B" and "refers_to env openApi B A" and "deep cfg = Some True"
  shows "s_ref r = Some p \<Longrightarrow>
         findBy_ref env p openApi = Inr A \<or> findBy_ref env p openApi = Inr B \<Longrightarrow>
         parseSchema n env r openApi cfg s \<noteq> Returned ty s'"
proof (induction n arbitrary: r p s ty s')
  case 0
  then show ?case by simp
next
  case (Suc n)
  show ?case
  proof
    assume ret: "parseSchema (Suc n) env r openApi cfg s = Returned ty s'"
    from Suc.prems(2) obtain X Y where
      X: "findBy_ref env p openApi = Inr X" and XY: "refers_to env openApi X Y"
      and Y: "Y = A \<or> Y = B"
      using assms(1,2) by auto
    from ret obtain s1 where
      "dispatch (\<lambda>item. parseSchema n env item openApi cfg) env X openApi cfg s1 = Returned ty s'"
      using Suc.prems(1) X assms(3) by (auto split: option.splits)
    from dispatch_object_returned [OF this XY] obtain r' p' s2 ty' s3 where
      r': "s_ref r' = Some p'" "findBy_ref env p' openApi = Inr Y"
      and again: "parseSchema n env r' openApi cfg s2 = Returned ty' s3"
      by blast
    from r' Y have "parseSchema n env r' openApi cfg s2 \<noteq> Returned ty' s3"
      by (intro Suc.IH) auto
    with again show False by contradiction
  qed
qed

lemma cycle_never_returns:
  assumes "refers_to env openApi A B" and "refers_to env openApi B A" and "deep cfg = Some True"
  shows "parseSchema n env A openApi cfg s \<noteq> Returned ty s'"
proof
  assume ret: "parseSchema n env A openApi cfg s = Returned ty s'"
  then obtain m where n: "n = Suc m" by (cases n) auto
  have "s_ref A = None" using assms(1) by (simp add: refers_to_def)
  with ret n have
    "dispatch (\<lambda>item. parseSchema m env item openApi cfg) env A openApi cfg s = Returned ty s'"
    by simp
  from dispatch_object_returned [OF this assms(1)] obtain r p s1 ty' s2 where
    r: "s_ref r = Some p" "findBy_ref env p openApi = Inr B"
    and again: "parseSchema m env r openApi cfg s1 = Returned ty' s2"
    by blast
  from r have "parseSchema m env r openApi cfg s1 \<noteq> Returned ty' s2"
    by (intro reference_into_cycle_never_returns [OF assms]) auto
  with again show False by contradiction
qed

lemma cyclic_doc_diverges:
  assumes "deep cfg = Some True"
  shows "parseSchema n table_env schema_A cyclic_doc cfg s = Diverged
       \<and> parseSchema n table_env schema_B cyclic_doc cfg s = Diverged
       \<and> parseSchema n table_env (ref_node ''#/components/schemas/A'') cyclic_doc cfg s = Diverged
       \<and> parseSchema n table_env (ref_node ''#/components/schemas/B'') cyclic_doc cfg s = Diverged"
proof (induction n arbitrary: s)
  case 0
  show ?case by simp
next
  case (Suc n)
  have A: "parseSchema (Suc n) table_env schema_A cyclic_doc cfg s = Diverged" for s
    using Suc.IH [of s]
    by (simp add: schema_A_def schema_B_def cyclic_doc_def object_node_def ref_node_def table_env_def
        dispatch_def parseObject_def)
  have B: "parseSchema (Suc n) table_env schema_B cyclic_doc cfg s = Diverged" for s
    using Suc.IH [of s]
    by (simp add: schema_A_def schema_B_def cyclic_doc_def object_node_def ref_node_def table_env_def
        dispatch_def parseObject_def)
  have rA: "parseSchema (Suc n) table_env (ref_node ''#/components/schemas/A'') cyclic_doc cfg s = Diverged" for s
  proof (cases "notify cfg (ref_node ''#/components/schemas/A'') s")
    case None
    then show ?thesis by (simp add: ref_node_def)
  next
    case (Some s1)
    then show ?thesis
      using Suc.IH [of s1] assms
      by (simp add: schema_A_def schema_B_def cyclic_doc_def object_node_def ref_node_def table_env_def
          dispatch_def parseObject_def)
  qed
  have rB: "parseSchema (Suc n) table_env (ref_node ''#/components/schemas/B'') cyclic_doc cfg s = Diverged" for s
  proof (cases "notify cfg (ref_node ''#/components/schemas/B'') s")
    case None
    then show ?thesis by (simp add: ref_node_def)
  next
    case (Some s1)
    then show ?thesis
      using Suc.IH [of s1] assms
      by (simp add: schema_A_def schema_B_def cyclic_doc_def object_node_def ref_node_def table_env_def
          dispatch_def parseObject_def)
  qed
  show ?case using A B rA rB by simp
qed

text \<open>
  C1, as the code has it. Let \<^verbatim>\<open>A\<close> and \<^verbatim>\<open>B\<close> be object schemas, \<^verbatim>\<open>A\<close> with a
  property that references \<^verbatim>\<open>B\<close> and \<^verbatim>\<open>B\<close> with a property that references \<^verbatim>\<open>A\<close>.
  Then \<^verbatim>\<open>jsonSchema2TsStr\<close> called on \<^verbatim>\<open>A\<close> with \<^verbatim>\<open>deep\<close> set never produces a
  declaration, whatever the memo holds: with \<^verbatim>\<open>deep\<close> set every reference is expanded in
  place, the expansion of \<^verbatim>\<open>A\<close> needs that of \<^verbatim>\<open>B\<close> and conversely, and the memo is
  written only after a nested call has finished.
\<close>

theorem mutual_references_never_declared:
  assumes "refers_to env openApi A B" and "refers_to env openApi B A"
    and "deep_opt options = Some True"
  shows "\<not> (\<exists>n decl st'. jsonSchema2TsStr n env (Some A) name openApi options st = Some (Inr decl, st'))"
proof
  assume "\<exists>n decl st'. jsonSchema2TsStr n env (Some A) name openApi options st = Some (Inr decl, st')"
  then obtain n decl st' where
    some: "jsonSchema2TsStr n env (Some A) name openApi options st = Some (Inr decl, st')"
    by blast
  then obtain m where n: "n = Suc m" by (cases n) auto
  let ?cfg = "\<lparr>deep = deep_opt options, defaultType = Some ''unknown'',
              commentStyle = Some Docment, preText = Some '''',
              on_Ref = Some (collector_on_Ref
                               (\<lambda>node nm. jsonSchema2TsStr m env (Some node) nm openApi options)
                               env openApi options)\<rparr>"
  from some n obtain tsStr where
    "convertToType m env (Some A) openApi ?cfg st = Some (Inr tsStr, st')"
    by (auto split: option.splits sum.splits prod.splits simp: Let_def)
  then obtain ty where "parseSchema m env A openApi ?cfg st = Returned ty st'"
    by (auto simp: convertToType_def Let_def split: outcome.splits sum.splits)
  moreover have "parseSchema m env A openApi ?cfg st \<noteq> Returned ty st'"
    by (rule cycle_never_returns [OF assms(1,2)]) (simp add: assms(3))
  ultimately show False by contradiction
qed

theorem mutual_references_never_declared_witness:
  "refers_to table_env cyclic_doc schema_A schema_B
   \<and> refers_to table_env cyclic_doc schema_B schema_A
   \<and> \<not> (\<exists>n decl st'. jsonSchema2TsStr n table_env (Some schema_A) ''A'' cyclic_doc
            \<lparr>export_opt = None, deep_opt = Some True, has_on_RefTsStr = False\<rparr> fresh
          = Some (Inr decl, st'))"
proof -
  have ab: "refers_to table_env cyclic_doc schema_A schema_B"
    by (simp add: refers_to_def schema_A_def schema_B_def cyclic_doc_def object_node_def
        ref_node_def table_env_def)
  have ba: "refers_to table_env cyclic_doc schema_B schema_A"
    by (simp add: refers_to_def schema_A_def schema_B_def cyclic_doc_def object_node_def
        ref_node_def table_env_def)
  show ?thesis
    using ab ba
      mutual_references_never_declared [OF ab ba,
        of "\<lparr>export_opt = None, deep_opt = Some True, has_on_RefTsStr = False\<rparr>" "''A''" fresh]
    by simp
qed

text \<open>On the two-schema document, from an empty memo, no bound on the recursion depth
  lets the call return at all: the recursion is unbounded (a JavaScript engine ends it
  with a stack overflow).\<close>

theorem mutual_references_counterexample:
  "\<not> (\<exists>n outcome. jsonSchema2TsStr n table_env (Some schema_A) ''A'' cyclic_doc
          \<lparr>export_opt = Some False, deep_opt = Some True, has_on_RefTsStr = True\<rparr> fresh = Some outcome)"
proof
  assume "\<exists>n outcome. jsonSchema2TsStr n table_env (Some schema_A) ''A'' cyclic_doc
          \<lparr>export_opt = Some False, deep_opt = Some True, has_on_RefTsStr = True\<rparr> fresh = Some outcome"
  then obtain n outcome where
    some: "jsonSchema2TsStr n table_env (Some schema_A) ''A'' cyclic_doc
          \<lparr>export_opt = Some False, deep_opt = Some True, has_on_RefTsStr = True\<rparr> fresh = Some outcome"
    by blast
  then obtain m where n: "n = Suc m" by (cases n) auto
  show False
    using some unfolding n
    by (simp add: convertToType_def cyclic_doc_diverges)
qed

end
